theory Spec2Isabelle
  imports Main "HOL-Library.AList"
begin

section \<open>JSON values and the JavaScript operations applied to them\<close>

text \<open>
  \<^verbatim>\<open>settings.ts\<close> manipulates plain JSON data: schemas, schema fragments of language
  servers and user settings. A JSON object is an association list in insertion order,
  JavaScript's \<^verbatim>\<open>undefined\<close> is \<open>None\<close> of \<open>json option\<close>. Numbers are integers here
  (the code only tests them for truthiness and copies them).

  Three things of JavaScript are outside this data model and are not embedded: members
  inherited from a prototype (\<^verbatim>\<open>toString\<close>, \<^verbatim>\<open>length\<close>, ...), the rule that
  integer-like keys of an object are enumerated before the other keys, and arrays that
  carry named properties. The last one is the error value \<open>NotJSON\<close>: the embedding
  stops where the code would attach a named property to an array.
\<close>

datatype json =
    JNull
  | JBool bool
  | JNum int
  | JStr string
  | JArr "json list"
  | JObj "(string \<times> json) list"

datatype error = TypeError | NotJSON

text \<open>Truthiness, as tested by \<^verbatim>\<open>!x\<close> and \<^verbatim>\<open>if (x)\<close>.\<close>

fun truthy :: "json option \<Rightarrow> bool" where
  "truthy None = False"
| "truthy (Some JNull) = False"
| "truthy (Some (JBool b)) = b"
| "truthy (Some (JNum n)) = (n \<noteq> 0)"
| "truthy (Some (JStr s)) = (s \<noteq> [])"
| "truthy (Some (JArr xs)) = True"
| "truthy (Some (JObj kvs)) = True"

text \<open>Decimal numerals: the keys of array elements, and the validation attempt number.\<close>

fun dec :: "nat \<Rightarrow> string" where
  "dec n = (if n < 10 then [''0123456789'' ! n]
            else dec (n div 10) @ [''0123456789'' ! (n mod 10)])"

declare dec.simps [simp del]

text \<open>
  \<^verbatim>\<open>Object.entries(v)\<close> for a value that is neither \<^verbatim>\<open>null\<close> nor \<^verbatim>\<open>undefined\<close>:
  the own enumerable properties.
\<close>

fun own_entries :: "json \<Rightarrow> (string \<times> json) list" where
  "own_entries (JObj kvs) = kvs"
| "own_entries (JArr xs) = zip (map dec [0..<length xs]) xs"
| "own_entries (JStr s) = zip (map dec [0..<length s]) (map (\<lambda>c. JStr [c]) s)"
| "own_entries v = []"

text \<open>\<^verbatim>\<open>Object.entries(v)\<close>: a TypeError on \<^verbatim>\<open>null\<close> and \<^verbatim>\<open>undefined\<close>.\<close>

fun object_entries :: "json option \<Rightarrow> error + (string \<times> json) list" where
  "object_entries None = Inl TypeError"
| "object_entries (Some JNull) = Inl TypeError"
| "object_entries (Some v) = Inr (own_entries v)"

text \<open>\<^verbatim>\<open>v[k]\<close> on a value that is neither \<^verbatim>\<open>null\<close> nor \<^verbatim>\<open>undefined\<close>.\<close>

definition own_prop :: "json \<Rightarrow> string \<Rightarrow> json option" where
  "own_prop v k = map_of (own_entries v) k"

text \<open>\<^verbatim>\<open>v[k]\<close> in general: reading a property of \<^verbatim>\<open>null\<close> or \<^verbatim>\<open>undefined\<close> throws.\<close>

fun get_prop :: "json option \<Rightarrow> string \<Rightarrow> error + json option" where
  "get_prop None k = Inl TypeError"
| "get_prop (Some JNull) k = Inl TypeError"
| "get_prop (Some v) k = Inr (own_prop v k)"

text \<open>\<^verbatim>\<open>v.k1.k2...\<close>\<close>

fun get_path :: "json option \<Rightarrow> string list \<Rightarrow> error + json option" where
  "get_path v [] = Inr v"
| "get_path v (k # ks) = (case get_prop v k of Inl e \<Rightarrow> Inl e | Inr c \<Rightarrow> get_path c ks)"

text \<open>
  \<^verbatim>\<open>v[k] = x\<close> (the module is strict-mode code, so assigning to a property of a
  primitive throws). The result is the object after the assignment.
\<close>

fun set_prop :: "json option \<Rightarrow> string \<Rightarrow> json \<Rightarrow> error + json" where
  "set_prop (Some (JObj kvs)) k x = Inr (JObj (AList.update k x kvs))"
| "set_prop (Some (JArr xs)) k x = Inl NotJSON"
| "set_prop v k x = Inl TypeError"

text \<open>\<^verbatim>\<open>delete v[k]\<close> on an object.\<close>

fun delete_prop :: "json \<Rightarrow> string \<Rightarrow> json" where
  "delete_prop (JObj kvs) k = JObj (AList.delete k kvs)"
| "delete_prop v k = v"

text \<open>
  Objects are shared by reference: when the code mutates the object it reached through
  \<^verbatim>\<open>parent[k]\<close>, the parent sees the change. In this value model the parent is rebuilt
  with the mutated child in the place of the old one.
\<close>

fun put_child :: "json \<Rightarrow> string \<Rightarrow> json \<Rightarrow> json" where
  "put_child (JObj kvs) k c = JObj (AList.update k c kvs)"
| "put_child (JArr xs) k c =
     JArr (map (\<lambda>(k', v). if k' = k then c else v) (own_entries (JArr xs)))"
| "put_child v k c = v"

text \<open>The same for all the children at once, given in the order of \<open>own_entries\<close>.\<close>

fun with_children :: "json \<Rightarrow> (string \<times> json) list \<Rightarrow> json" where
  "with_children (JObj kvs) es = JObj es"
| "with_children (JArr xs) es = JArr (map snd es)"
| "with_children v es = v"

text \<open>\<^verbatim>\<open>root.p1. ... .pn[k] = x\<close>, returning the root after the assignment.\<close>

fun assign_path :: "json \<Rightarrow> string list \<Rightarrow> string \<Rightarrow> json \<Rightarrow> error + json" where
  "assign_path root [] k x = set_prop (Some root) k x"
| "assign_path root (p # ps) k x =
     (case get_prop (Some root) p of
        Inl e \<Rightarrow> Inl e
      | Inr None \<Rightarrow> Inl TypeError
      | Inr (Some child) \<Rightarrow>
          (case assign_path child ps k x of
             Inl e \<Rightarrow> Inl e
           | Inr child' \<Rightarrow> Inr (put_child root p child')))"

text \<open>\<^verbatim>\<open>delete root.p1. ... .pn[k]\<close>, returning the root after the deletion.\<close>

fun delete_path :: "json \<Rightarrow> string list \<Rightarrow> string \<Rightarrow> error + json" where
  "delete_path root [] k = (if root = JNull then Inl TypeError else Inr (delete_prop root k))"
| "delete_path root (p # ps) k =
     (case get_prop (Some root) p of
        Inl e \<Rightarrow> Inl e
      | Inr None \<Rightarrow> Inl TypeError
      | Inr (Some child) \<Rightarrow>
          (case delete_path child ps k of
             Inl e \<Rightarrow> Inl e
           | Inr child' \<Rightarrow> Inr (put_child root p child')))"

text \<open>
  \<^verbatim>\<open>JSONExt.deepCopy\<close> of \<^verbatim>\<open>@lumino/coreutils\<close>: a structurally equal value that
  shares nothing with its argument; \<^verbatim>\<open>undefined\<close> is copied to an empty object. In a
  value model the copy is the value itself, and what the copy is for (later mutations
  of the one do not reach the other) shows in which values a function returns updated.
\<close>

fun deepCopy :: "json option \<Rightarrow> json" where
  "deepCopy None = JObj []"
| "deepCopy (Some v) = v"

text \<open>\<^verbatim>\<open>s.startsWith(p)\<close>\<close>

definition startsWith :: "string \<Rightarrow> string \<Rightarrow> bool" where
  "startsWith s p = (take (length p) s = p)"

section \<open>Schema helpers of settings.ts\<close>

text \<open>\<^verbatim>\<open>isJSONProperty\<close>, lines 38-42.\<close>

fun isJSONProperty :: "json \<Rightarrow> bool" where
  "isJSONProperty (JObj kvs) = (map_of kvs ''type'' \<noteq> None \<or> map_of kvs ''$ref'' \<noteq> None)"
| "isJSONProperty (JArr xs) = False"
| "isJSONProperty v = False"

text \<open>
  \<^verbatim>\<open>getDefaults\<close>, lines 47-63. \<^verbatim>\<open>(value as any)?.default\<close> is \<^verbatim>\<open>undefined\<close> for
  \<^verbatim>\<open>null\<close>; entries whose default is \<^verbatim>\<open>undefined\<close> are filtered out, the others are
  assigned to a fresh object in order.
\<close>

definition optional_default :: "json \<Rightarrow> json option" where
  "optional_default v = own_prop v ''default''"

definition getDefaults :: "json option \<Rightarrow> (string \<times> json) list" where
  "getDefaults properties =
     (case properties of
        None \<Rightarrow> []
      | Some JNull \<Rightarrow> []
      | Some p \<Rightarrow>
          fold (\<lambda>(key, v) defaults. AList.update key v defaults)
            (List.map_filter (\<lambda>(key, v). map_option (Pair key) (optional_default v))
               (own_entries p))
            [])"

section \<open>The collaborators of the settings manager\<close>

text \<open>
  A server specification as the language server manager holds it. Only the two members
  that \<^verbatim>\<open>populate\<close> reads are kept; \<^verbatim>\<open>config_schema\<close> is optional.
\<close>

record server_spec =
  display_name :: string
  config_schema :: "json option"

text \<open>\<^verbatim>\<open>ISettingRegistry.IPlugin\<close>: the object the registry hands to the hooks.\<close>

record plugin_data =
  composite :: json
  user :: json

record plugin =
  plugin_id :: string
  raw :: string
  data :: plugin_data
  version :: string
  plugin_schema :: json

text \<open>
  The external collaborators are parameters: \<open>tr\<close> is \<^verbatim>\<open>trans.__\<close> of the translation
  bundle (message, arguments), \<open>validateData\<close> is the validator of the setting registry,
  which returns \<^verbatim>\<open>null\<close> or an array of errors.
\<close>

record env =
  tr :: "string \<Rightarrow> string list \<Rightarrow> string"
  validateData :: "plugin \<Rightarrow> json list option"

text \<open>Calls of \<^verbatim>\<open>console.warn\<close> and \<^verbatim>\<open>console.error\<close>, with their arguments.\<close>

datatype console_arg =
    ArgSpec server_spec
  | ArgString string
  | ArgJSON json
  | ArgErrors "json list"

datatype log_entry =
    Warn string "console_arg list"
  | Error string "console_arg list"

section \<open>Composing the schema: the loop of populate\<close>

text \<open>
  Lines 173-191, the body of the loop over the properties of a fragment, for one
  property value. \<open>definitions\<close> is \<^verbatim>\<open>configSchema.definitions\<close>. The result is the
  warnings logged and either the exception thrown or the property after the step.
  A \<^verbatim>\<open>$ref\<close> that is not a string has no \<^verbatim>\<open>startsWith\<close> method: calling it throws.
\<close>

fun resolve_ref :: "json option \<Rightarrow> json \<Rightarrow> log_entry list \<times> (error + json)" where
  "resolve_ref definitions (JObj kvs) =
     (if \<not> isJSONProperty (JObj kvs) then ([], Inr (JObj kvs))
      else case map_of kvs ''$ref'' of
        None \<Rightarrow> ([], Inr (JObj kvs))
      | Some (JStr ref) \<Rightarrow>
          if startsWith ref ''#/definitions/'' then
            (let definitionID = drop 14 ref in
             case get_prop definitions definitionID of
               Inl e \<Rightarrow> ([], Inl e)
             | Inr definition \<Rightarrow>
                 (let w = (if definition = None \<or> definition = Some JNull
                           then [Warn ''Definition not found'' []] else [])
                  in case object_entries definition of
                       Inl e \<Rightarrow> (w, Inl e)
                     | Inr es \<Rightarrow>
                         (w, Inr (JObj (AList.delete ''$ref''
                            (fold (\<lambda>(defKey, defValue) value. AList.update defKey defValue value)
                               es kvs))))))
          else ([Warn ''Unsupported $ref'' [ArgJSON (JStr ref)]], Inr (JObj kvs))
      | Some r \<Rightarrow> ([], Inl TypeError))"
| "resolve_ref definitions v = ([], Inr v)"

text \<open>
  Lines 172-192: the loop over \<^verbatim>\<open>Object.entries(configSchema.properties)\<close>. It returns
  the entries after the loop (an exception leaves the current and the later ones as
  they were), the warnings and the exception, if any.
\<close>

fun inline_refs ::
  "json option \<Rightarrow> (string \<times> json) list \<Rightarrow> (string \<times> json) list \<times> log_entry list \<times> error option"
where
  "inline_refs definitions [] = ([], [], None)"
| "inline_refs definitions ((key, v) # rest) =
     (case resolve_ref definitions v of
        (w, Inl e) \<Rightarrow> ((key, v) # rest, w, Some e)
      | (w, Inr v') \<Rightarrow>
          (case inline_refs definitions rest of
             (rest', w', r) \<Rightarrow> ((key, v') # rest', w @ w', r)))"

text \<open>The two description templates of lines 160-168 and the title of line 170.\<close>

definition not_detected_message :: string where
  "not_detected_message = ''Settings that would be passed to `%1` server (this server was not detected as installed during startup) in `workspace/didChangeConfiguration` notification.''"

definition detected_message :: string where
  "detected_message = ''Settings to be passed to %1 in `workspace/didChangeConfiguration` notification.''"

definition title_message :: string where
  "title_message = ''Workspace Configuration''"

text \<open>
  Lines 158-192 for a fragment that is an object with members \<open>cs\<close>: description and
  title are assigned to the fragment itself, then its references are inlined. The
  result is the warnings, the fragment after the mutation, and the exception, if any.
\<close>

definition populate_config_schema ::
  "env \<Rightarrow> bool \<Rightarrow> string \<Rightarrow> (string \<times> json) list \<Rightarrow> log_entry list \<times> json \<times> error option"
where
  "populate_config_schema env has_session name cs =
     (let cs1 = AList.update ''description''
                  (JStr (if \<not> has_session
                         then tr env not_detected_message [name]
                         else tr env detected_message [name]))
                  cs;
          cs2 = AList.update ''title'' (JStr (tr env title_message [])) cs1
      in case map_of cs2 ''properties'' of
           None \<Rightarrow> ([], JObj cs2, Some TypeError)
         | Some properties \<Rightarrow>
             (case object_entries (Some properties) of
                Inl e \<Rightarrow> ([], JObj cs2, Some e)
              | Inr es \<Rightarrow>
                  (case inline_refs (map_of cs2 ''definitions'') es of
                     (es', w, r) \<Rightarrow>
                       (w, JObj (AList.update ''properties'' (with_children properties es') cs2), r))))"

text \<open>
  Lines 134-202: the body of the loop over \<^verbatim>\<open>languageServerManager.specs\<close> for one
  entry. The fragment is the one of the specification, not a copy. The result is the
  warnings, the specification after the step, and the exception thrown, or \<open>None\<close> when
  the entry was skipped (\<^verbatim>\<open>continue\<close>), or the values assigned to
  \<^verbatim>\<open>knownServersConfig[serverKey]\<close> and \<^verbatim>\<open>defaults[serverKey]\<close>.
\<close>

definition populate_spec ::
  "env \<Rightarrow> string set \<Rightarrow> json option \<Rightarrow> (string \<times> json) list \<Rightarrow> string \<Rightarrow> server_spec
     \<Rightarrow> log_entry list \<times> server_spec \<times> (error + (json \<times> json) option)"
where
  "populate_spec env sess baseServerSchema sharedDefaults serverKey serverSpec =
     (if serverKey = [] then
        ([Warn ''Empty server key - skipping transformation for'' [ArgSpec serverSpec]],
         serverSpec, Inr None)
      else case config_schema serverSpec of
        None \<Rightarrow>
          ([Warn ''No config schema - skipping transformation for'' [ArgString serverKey]],
           serverSpec, Inr None)
      | Some configSchema \<Rightarrow>
          if \<not> truthy (Some configSchema) then
            ([Warn ''No config schema - skipping transformation for'' [ArgString serverKey]],
             serverSpec, Inr None)
          else if \<not> truthy (own_prop configSchema ''properties'') then
            ([Warn ''No properites in config schema - skipping transformation for''
                [ArgString serverKey]],
             serverSpec, Inr None)
          else
            (case populate_config_schema env (serverKey \<in> sess) (display_name serverSpec)
                    (own_entries configSchema) of
               (w, configSchema', Some e) \<Rightarrow>
                 (w, serverSpec\<lparr>config_schema := Some configSchema'\<rparr>, Inl e)
             | (w, configSchema', None) \<Rightarrow>
                 (let defaultMap = getDefaults (own_prop configSchema' ''properties'');
                      baseSchemaCopy = deepCopy baseServerSchema
                  in case assign_path baseSchemaCopy [''properties''] ''serverSettings''
                            configSchema' of
                       Inl e \<Rightarrow> (w, serverSpec\<lparr>config_schema := Some configSchema'\<rparr>, Inl e)
                     | Inr entry \<Rightarrow>
                         (w, serverSpec\<lparr>config_schema := Some configSchema'\<rparr>,
                          Inr (Some (entry,
                                 JObj (AList.update ''serverSettings'' (JObj defaultMap)
                                         sharedDefaults)))))))"

text \<open>
  Lines 130-203: the loop, with \<^verbatim>\<open>knownServersConfig\<close> and \<^verbatim>\<open>defaults\<close> as
  accumulators. It returns the specifications after the loop, the warnings, and the
  exception or the two maps.
\<close>

fun populate_specs ::
  "env \<Rightarrow> string set \<Rightarrow> json option \<Rightarrow> (string \<times> json) list \<Rightarrow> (string \<times> server_spec) list
     \<Rightarrow> (string \<times> json) list \<Rightarrow> (string \<times> json) list
     \<Rightarrow> (string \<times> server_spec) list \<times> log_entry list
         \<times> (error + (string \<times> json) list \<times> (string \<times> json) list)"
where
  "populate_specs env sess base shared [] knownServersConfig defaults =
     ([], [], Inr (knownServersConfig, defaults))"
| "populate_specs env sess base shared ((serverKey, serverSpec) # rest) knownServersConfig defaults =
     (case populate_spec env sess base shared serverKey serverSpec of
        (w, spec', Inl e) \<Rightarrow> ((serverKey, spec') # rest, w, Inl e)
      | (w, spec', Inr None) \<Rightarrow>
          (case populate_specs env sess base shared rest knownServersConfig defaults of
             (rest', w', r) \<Rightarrow> ((serverKey, spec') # rest', w @ w', r))
      | (w, spec', Inr (Some (entry, dflt))) \<Rightarrow>
          (case populate_specs env sess base shared rest
                  (AList.update serverKey entry knownServersConfig)
                  (AList.update serverKey dflt defaults) of
             (rest', w', r) \<Rightarrow> ((serverKey, spec') # rest', w @ w', r)))"

section \<open>populate: composition, validation and rollback\<close>

text \<open>
  The state that the hooks read and write: the specifications and the session keys of
  the language server manager, the console, the closure variables \<^verbatim>\<open>canonical\<close> and
  \<^verbatim>\<open>original\<close> of \<^verbatim>\<open>setupSchemaForUI\<close> (\<open>None\<close> is \<^verbatim>\<open>null\<close> or \<^verbatim>\<open>undefined\<close>),
  the members \<^verbatim>\<open>_defaults\<close> and \<^verbatim>\<open>_validationErrors\<close> of the manager object, and the
  module variable \<^verbatim>\<open>validationAttempt\<close>.
\<close>

record state =
  specs :: "(string \<times> server_spec) list"
  sessions :: "string set"
  console :: "log_entry list"
  canonical :: "json option"
  original :: "json option"
  this_defaults :: "(string \<times> json) list"
  this_validationErrors :: "json list"
  validationAttempt :: nat

definition validation_id :: "nat \<Rightarrow> string" where
  "validation_id n = ''lsp-validation-attempt-'' @ dec n"

definition validation_failed_message :: string where
  "validation_failed_message = ''LSP server settings validation failed; configuration graphical interface will run in schema-free mode; errors:''"

definition no_original_message :: string where
  "no_original_message = ''Original language servers schema not available to restore non-transformed values.''"

text \<open>
  Lines 238-243: the two conditional deletions. The result is the schema after them and
  the exception thrown, if any (reading \<^verbatim>\<open>original.properties!.language_servers\<close>
  throws when the original has no such member).
\<close>

definition rollback :: "json option \<Rightarrow> json \<Rightarrow> json \<times> error option" where
  "rollback orig schema =
     (case get_path orig [''properties'', ''language_servers'', ''properties''] of
        Inl e \<Rightarrow> (schema, Some e)
      | Inr original_properties \<Rightarrow>
          (case (if \<not> truthy original_properties
                 then delete_path schema [''properties'', ''language_servers''] ''properties''
                 else Inr schema) of
             Inl e \<Rightarrow> (schema, Some e)
           | Inr schema1 \<Rightarrow>
               (case get_path orig [''properties'', ''language_servers'', ''default''] of
                  Inl e \<Rightarrow> (schema1, Some e)
                | Inr original_default \<Rightarrow>
                    (case (if \<not> truthy original_default
                           then delete_path schema1 [''properties'', ''language_servers''] ''default''
                           else Inr schema1) of
                       Inl e \<Rightarrow> (schema1, Some e)
                     | Inr schema2 \<Rightarrow> (schema2, None)))))"

text \<open>
  Lines 208-247: the validation of the composed schema and what follows it. The
  validator gets a plugin with a fresh identifier, empty parsed data and the composed
  schema; an array of errors is truthy whatever its length.
\<close>

definition validation_gate ::
  "env \<Rightarrow> state \<Rightarrow> plugin \<Rightarrow> json \<Rightarrow> (string \<times> json) list \<Rightarrow> state \<times> json \<times> error option"
where
  "validation_gate env s plugin schema defaults =
     (let s1 = s\<lparr>validationAttempt := validationAttempt s + 1\<rparr> in
      case validateData env
             \<lparr>plugin_id = validation_id (validationAttempt s1), raw = raw plugin,
              data = \<lparr>composite = JObj [], user = JObj []\<rparr>, version = version plugin,
              plugin_schema = schema\<rparr> of
        None \<Rightarrow> (s1\<lparr>this_defaults := defaults\<rparr>, schema, None)
      | Some validationErrors \<Rightarrow>
          (let s2 = s1\<lparr>console := console s1 @
                          [Error validation_failed_message [ArgErrors validationErrors]],
                       this_validationErrors := validationErrors\<rparr>
           in if \<not> truthy (original s2) then
                (s2\<lparr>console := console s2 @ [Error no_original_message []],
                    this_defaults := defaults\<rparr>, schema, None)
              else
                (case rollback (original s2) schema of
                   (schema', Some e) \<Rightarrow> (s2, schema', Some e)
                 | (schema', None) \<Rightarrow> (s2\<lparr>this_defaults := defaults\<rparr>, schema', None))))"

text \<open>
  \<^verbatim>\<open>populate\<close>, lines 112-248. \<open>schema\<close> is the object that \<^verbatim>\<open>fetch\<close> has just stored in
  \<^verbatim>\<open>canonical\<close>; the result is the state, that object after the mutations, and the
  exception thrown, if any.
\<close>

definition populate :: "env \<Rightarrow> state \<Rightarrow> plugin \<Rightarrow> json \<Rightarrow> state \<times> json \<times> error option" where
  "populate env s plugin schema =
     (case get_path (Some schema) [''definitions'', ''language-server''] of
        Inl e \<Rightarrow> (s, schema, Some e)
      | Inr baseServerSchema \<Rightarrow>
          (case get_path (Some schema) [''properties'', ''language_servers'', ''properties''] of
             Inl e \<Rightarrow> (s, schema, Some e)
           | Inr shared \<Rightarrow>
               (case populate_specs env (sessions s) baseServerSchema (getDefaults shared)
                       (specs s) [] [] of
                  (specs', w, Inl e) \<Rightarrow>
                    (s\<lparr>specs := specs', console := console s @ w\<rparr>, schema, Some e)
                | (specs', w, Inr (knownServersConfig, defaults)) \<Rightarrow>
                    (let s1 = s\<lparr>specs := specs', console := console s @ w\<rparr> in
                     case assign_path schema [''properties'', ''language_servers'']
                            ''properties'' (JObj knownServersConfig) of
                       Inl e \<Rightarrow> (s1, schema, Some e)
                     | Inr schema1 \<Rightarrow>
                         (case assign_path schema1 [''properties'', ''language_servers'']
                                 ''default'' (JObj defaults) of
                            Inl e \<Rightarrow> (s1, schema1, Some e)
                          | Inr schema2 \<Rightarrow> validation_gate env s1 plugin schema2 defaults)))))"

section \<open>The hooks registered with the setting registry\<close>

text \<open>
  \<^verbatim>\<open>fetch\<close>, lines 252-268. The object assigned to \<^verbatim>\<open>canonical\<close> is the one that
  \<^verbatim>\<open>populate\<close> mutates, so \<^verbatim>\<open>canonical\<close> holds it as it is after \<^verbatim>\<open>populate\<close>, also
  when \<^verbatim>\<open>populate\<close> throws. The result is the state and the exception or the plugin
  returned.
\<close>

definition fetch :: "env \<Rightarrow> state \<Rightarrow> plugin \<Rightarrow> state \<times> (error + plugin)" where
  "fetch env s plugin =
     (let s1 = (if \<not> truthy (original s)
                then s\<lparr>original := Some (deepCopy (Some (plugin_schema plugin)))\<rparr> else s)
      in case (if truthy (canonical s1) then canonical s1 else None) of
           Some cached \<Rightarrow> (s1, Inr (plugin\<lparr>plugin_schema := cached\<rparr>))
         | None \<Rightarrow>
             (let copy = deepCopy (Some (plugin_schema plugin)) in
              case populate env (s1\<lparr>canonical := Some copy\<rparr>) plugin copy of
                (s2, schema', Some e) \<Rightarrow> (s2\<lparr>canonical := Some schema'\<rparr>, Inl e)
              | (s2, schema', None) \<Rightarrow>
                  (s2\<lparr>canonical := Some schema'\<rparr>, Inr (plugin\<lparr>plugin_schema := schema'\<rparr>))))"

text \<open>
  The handler connected to \<^verbatim>\<open>sessionsChanged\<close>, lines 297-300: it clears \<^verbatim>\<open>canonical\<close>
  and asks the registry to reload the plugin (a call to a collaborator, returned here as
  the identifier passed).
\<close>

definition sessionsChanged :: "string \<Rightarrow> state \<Rightarrow> state \<times> string" where
  "sessionsChanged pluginId s = (s\<lparr>canonical := None\<rparr>, pluginId)"

text \<open>
  What can happen during the lifetime of the manager: the registry fetches the plugin,
  or the language server manager replaces its specifications and sessions and emits
  \<^verbatim>\<open>sessionsChanged\<close>. An exception of \<^verbatim>\<open>fetch\<close> goes to the registry; the state stays
  as \<^verbatim>\<open>fetch\<close> left it.
\<close>

datatype event =
    Fetch plugin
  | SessionsChanged "(string \<times> server_spec) list" "string set"

fun step :: "env \<Rightarrow> string \<Rightarrow> state \<Rightarrow> event \<Rightarrow> state" where
  "step env pluginId s (Fetch plugin) = fst (fetch env s plugin)"
| "step env pluginId s (SessionsChanged specs' sessions') =
     fst (sessionsChanged pluginId (s\<lparr>specs := specs', sessions := sessions'\<rparr>))"

fun run :: "env \<Rightarrow> string \<Rightarrow> state \<Rightarrow> event list \<Rightarrow> state" where
  "run env pluginId s [] = s"
| "run env pluginId s (ev # evs) = run env pluginId (step env pluginId s ev) evs"

text \<open>
  The state after the constructor and \<^verbatim>\<open>setupSchemaForUI\<close> (lines 77-78, 106-107, 65),
  for given specifications and sessions.
\<close>

definition initial :: "(string \<times> server_spec) list \<Rightarrow> string set \<Rightarrow> state" where
  "initial specs0 sessions0 =
     \<lparr>specs = specs0, sessions = sessions0, console = [], canonical = None, original = None,
      this_defaults = [], this_validationErrors = [], validationAttempt = 0\<rparr>"

section \<open>Collapsing the user settings\<close>

text \<open>
  \<^verbatim>\<open>collapseToDotted\<close> of \<^verbatim>\<open>./utils\<close> is not among the sources; it is a parameter of the
  functions below. Its result has the collapsed settings and the conflicts, a list of
  values for each conflicting key.
\<close>

record collapsed =
  collapsed_result :: json
  collapsed_conflicts :: "(string \<times> json list) list"

text \<open>
  Lines 311-320: the loop over \<^verbatim>\<open>Object.entries(settings)\<close>, with \<^verbatim>\<open>conflicts\<close> and the
  copy \<^verbatim>\<open>result\<close> as accumulators.
\<close>

fun collapse_loop ::
  "(json \<Rightarrow> collapsed) \<Rightarrow> (string \<times> json) list \<Rightarrow> (string \<times> (string \<times> json list) list) list
     \<Rightarrow> json \<Rightarrow> error + (string \<times> (string \<times> json list) list) list \<times> json"
where
  "collapse_loop collapseToDotted [] conflicts result = Inr (conflicts, result)"
| "collapse_loop collapseToDotted ((serverKey, serverSettingsGroup) # rest) conflicts result =
     (if \<not> truthy (Some serverSettingsGroup)
         \<or> \<not> truthy (own_prop serverSettingsGroup ''serverSettings'')
      then collapse_loop collapseToDotted rest conflicts result
      else case own_prop serverSettingsGroup ''serverSettings'' of
        None \<Rightarrow> collapse_loop collapseToDotted rest conflicts result
      | Some serverSettings \<Rightarrow>
          (let collapsed = collapseToDotted serverSettings in
           case assign_path result [serverKey] ''serverSettings'' (collapsed_result collapsed) of
             Inl e \<Rightarrow> Inl e
           | Inr result' \<Rightarrow>
               collapse_loop collapseToDotted rest
                 (AList.update serverKey (collapsed_conflicts collapsed) conflicts) result'))"

text \<open>
  \<^verbatim>\<open>_collapseServerSettingsDotted\<close>, lines 303-331. The second component of the result
  is the argument of \<^verbatim>\<open>renderCollapseConflicts\<close> when \<^verbatim>\<open>showDialog\<close> is called, and
  \<open>None\<close> when it is not called.
\<close>

definition collapseServerSettingsDotted ::
  "(json \<Rightarrow> collapsed) \<Rightarrow> json option
     \<Rightarrow> error + json \<times> (string \<times> (string \<times> json list) list) list option"
where
  "collapseServerSettingsDotted collapseToDotted settings =
     (case object_entries settings of
        Inl e \<Rightarrow> Inl e
      | Inr es \<Rightarrow>
          (case collapse_loop collapseToDotted es [] (deepCopy settings) of
             Inl e \<Rightarrow> Inl e
           | Inr (conflicts, result) \<Rightarrow>
               Inr (result, if length (map fst conflicts) > 0 then Some conflicts else None)))"

text \<open>
  \<^verbatim>\<open>compose\<close>, lines 269-292. The result is the exception, or the plugin returned and
  the dialog shown. Line 276 reads back \<^verbatim>\<open>user.language_servers\<close>, which line 273 has
  just assigned. \<^verbatim>\<open>_filterOutDefaults\<close> is not called (line 285 is a comment).
\<close>

definition compose ::
  "(json \<Rightarrow> collapsed) \<Rightarrow> plugin
     \<Rightarrow> error + plugin \<times> (string \<times> (string \<times> json list) list) list option"
where
  "compose collapseToDotted plugin =
     (let usr = user (data plugin);
          comp = deepCopy (Some usr)
      in case get_prop (Some usr) ''language_servers'' of
           Inl e \<Rightarrow> Inl e
         | Inr language_servers \<Rightarrow>
             (case collapseServerSettingsDotted collapseToDotted language_servers of
                Inl e \<Rightarrow> Inl e
              | Inr (language_servers', dialog) \<Rightarrow>
                  (case set_prop (Some usr) ''language_servers'' language_servers' of
                     Inl e \<Rightarrow> Inl e
                   | Inr usr' \<Rightarrow>
                       (case set_prop (Some comp) ''language_servers'' language_servers' of
                          Inl e \<Rightarrow> Inl e
                        | Inr comp' \<Rightarrow>
                            Inr (plugin\<lparr>data := \<lparr>composite = comp', user = usr'\<rparr>\<rparr>,
                                 dialog)))))"

section \<open>Example values\<close>

text \<open>
  A fragment whose property \<open>p\<close> refers to a definition that its \<open>definitions\<close> do not
  have, and the fragment of the specification's scenario: one numeric property with
  default 80.
\<close>

definition missing_ref_spec :: server_spec where
  "missing_ref_spec =
     \<lparr>display_name = ''R'',
      config_schema = Some (JObj
        [(''properties'', JObj [(''p'', JObj [(''$ref'', JStr ''#/definitions/missing'')])]),
         (''definitions'', JObj [])])\<rparr>"

definition pyls_spec :: server_spec where
  "pyls_spec =
     \<lparr>display_name = ''Python LS'',
      config_schema = Some (JObj
        [(''properties'', JObj
           [(''maxLineLength'', JObj [(''type'', JStr ''number''), (''default'', JNum 80)])])])\<rparr>"

text \<open>
  A plugin schema in the shape of the extension's own: the template for one server under
  \<open>definitions\<close>, and \<open>language_servers\<close> with a default and no \<open>properties\<close>. The second
  schema has a default that is present and falsy. \<open>composed_schema\<close> is the first one
  after composition with no specifications.
\<close>

definition example_schema :: json where
  "example_schema = JObj
     [(''type'', JStr ''object''),
      (''definitions'', JObj
         [(''language-server'', JObj
            [(''type'', JStr ''object''),
             (''properties'', JObj
                [(''priority'', JObj [(''type'', JStr ''number''), (''default'', JNum 50)])])])]),
      (''properties'', JObj
         [(''language_servers'', JObj [(''type'', JStr ''object''), (''default'', JObj [])])])]"

definition falsy_default_schema :: json where
  "falsy_default_schema = JObj
     [(''type'', JStr ''object''),
      (''properties'', JObj
         [(''language_servers'', JObj [(''type'', JStr ''object''), (''default'', JBool False)])])]"

definition composed_schema :: json where
  "composed_schema = JObj
     [(''type'', JStr ''object''),
      (''properties'', JObj
         [(''language_servers'', JObj
            [(''type'', JStr ''object''), (''default'', JObj []), (''properties'', JObj [])])])]"

definition example_plugin :: plugin where
  "example_plugin =
     \<lparr>plugin_id = ''@jupyter-lsp/jupyterlab-lsp:plugin'', raw = ''{}'',
      data = \<lparr>composite = JObj [],
              user = JObj
                [(''logAllCommunication'', JBool True),
                 (''language_servers'', JObj
                    [(''pyls'', JObj [(''serverSettings'', JObj [(''a'', JNum 1)])])])]\<rparr>,
      version = ''1'', plugin_schema = example_schema\<rparr>"

text \<open>A translation bundle that returns the message, with a validator that accepts
  every schema, and with one that rejects every schema.\<close>

definition example_env :: env where
  "example_env = \<lparr>tr = (\<lambda>message args. message), validateData = (\<lambda>p. None)\<rparr>"

definition rejecting_env :: env where
  "rejecting_env =
     \<lparr>tr = (\<lambda>message args. message), validateData = (\<lambda>p. Some [JStr ''rejected''])\<rparr>"

text \<open>A flattening utility that finds no conflict and returns its argument.\<close>

definition no_conflicts :: "json \<Rightarrow> collapsed" where
  "no_conflicts v = \<lparr>collapsed_result = v, collapsed_conflicts = []\<rparr>"

text \<open>
  A key that is not a decimal numeral names a member of an object only: the keys of the
  elements of arrays and strings are decimal numerals.
\<close>

definition named :: "string \<Rightarrow> bool" where
  "named k = (\<not> set k \<subseteq> set ''0123456789'')"

text \<open>
  The three tests of lines 134-156 as one predicate, the warning logged for a
  specification that is skipped, and the description assigned at lines 159-169.
\<close>

definition skipped :: "string \<Rightarrow> server_spec \<Rightarrow> bool" where
  "skipped serverKey serverSpec =
     (serverKey = []
      \<or> (case config_schema serverSpec of
            None \<Rightarrow> True
          | Some configSchema \<Rightarrow>
              \<not> truthy (Some configSchema) \<or> \<not> truthy (own_prop configSchema ''properties'')))"

definition skip_warning :: "string \<Rightarrow> server_spec \<Rightarrow> log_entry" where
  "skip_warning serverKey serverSpec =
     (if serverKey = [] then
        Warn ''Empty server key - skipping transformation for'' [ArgSpec serverSpec]
      else if \<not> truthy (config_schema serverSpec) then
        Warn ''No config schema - skipping transformation for'' [ArgString serverKey]
      else
        Warn ''No properites in config schema - skipping transformation for''
          [ArgString serverKey])"

definition description_text :: "env \<Rightarrow> bool \<Rightarrow> string \<Rightarrow> string" where
  "description_text env has_session name =
     (if \<not> has_session then tr env not_detected_message [name]
      else tr env detected_message [name])"

text \<open>
  The template of the example schema for one server, and a map of specifications: one
  under the empty key, one without a fragment, one whose fragment has no properties, and
  the one of the scenario.
\<close>

definition example_base :: json where
  "example_base = JObj
     [(''type'', JStr ''object''),
      (''properties'', JObj
         [(''priority'', JObj [(''type'', JStr ''number''), (''default'', JNum 50)])])]"

definition example_specs :: "(string \<times> server_spec) list" where
  "example_specs =
     [([], \<lparr>display_name = ''Unnamed'', config_schema = Some (JObj [(''properties'', JObj [])])\<rparr>),
      (''bash'', \<lparr>display_name = ''Bash LS'', config_schema = None\<rparr>),
      (''texlab'', \<lparr>display_name = ''TexLab'', config_schema = Some (JObj [(''title'', JStr ''t'')])\<rparr>),
      (''pyls'', pyls_spec)]"

text \<open>
  A fragment whose property \<open>p\<close> refers to the definition \<open>d\<close> that it has, and a map with
  it and a specification that is skipped.
\<close>

definition ref_spec :: server_spec where
  "ref_spec =
     \<lparr>display_name = ''R'',
      config_schema = Some (JObj
        [(''properties'', JObj [(''p'', JObj [(''$ref'', JStr ''#/definitions/d'')])]),
         (''definitions'', JObj
            [(''d'', JObj [(''type'', JStr ''number''), (''default'', JNum 3)])])])\<rparr>"

definition ref_specs :: "(string \<times> server_spec) list" where
  "ref_specs =
     [(''texlab'', \<lparr>display_name = ''TexLab'', config_schema = Some (JObj [(''title'', JStr ''t'')])\<rparr>),
      (''r'', ref_spec)]"

section \<open>Outputs up to the description text\<close>








section \<open>Basic facts\<close>

lemma truthy_put_child: "truthy (Some (put_child v k c)) = truthy (Some v)"
  by (cases v) simp_all

lemma truthy_delete_prop: "truthy (Some (delete_prop v k)) = truthy (Some v)"
  by (cases v) simp_all

lemma assign_path_truthy: "assign_path root ps k x = Inr r \<Longrightarrow> truthy (Some r)"
  by (cases ps; cases root)
     (auto split: sum.splits option.splits simp: truthy_put_child own_prop_def)

lemma delete_path_truthy:
  "delete_path root ps k = Inr r \<Longrightarrow> truthy (Some root) \<Longrightarrow> truthy (Some r)"
  by (cases ps)
     (auto split: sum.splits option.splits if_splits simp: truthy_put_child truthy_delete_prop)

lemma rollback_truthy:
  "rollback orig schema = (schema', err) \<Longrightarrow> truthy (Some schema) \<Longrightarrow> truthy (Some schema')"
  unfolding rollback_def
  by (auto simp del: delete_path.simps get_path.simps split: sum.splits if_splits
      dest: delete_path_truthy)

lemma validation_gate_truthy:
  "validation_gate env s plugin schema defaults = (s', schema', err) \<Longrightarrow> truthy (Some schema)
     \<Longrightarrow> truthy (Some schema')"
  unfolding validation_gate_def Let_def
  by (auto split: option.splits if_splits prod.splits dest: rollback_truthy)

lemma validation_gate_original:
  "validation_gate env s plugin schema defaults = (s', schema', err) \<Longrightarrow> original s' = original s"
  unfolding validation_gate_def Let_def
  by (auto split: option.splits if_splits prod.splits)

lemma populate_original:
  "populate env s plugin schema = (s', schema', err) \<Longrightarrow> original s' = original s"
  unfolding populate_def Let_def
  by (auto simp del: assign_path.simps get_path.simps split: sum.splits prod.splits
      dest: validation_gate_original)

lemma populate_ok_truthy:
  "populate env s plugin schema = (s', schema', None) \<Longrightarrow> truthy (Some schema')"
  unfolding populate_def Let_def
  by (auto simp del: assign_path.simps get_path.simps split: sum.splits prod.splits
      dest: validation_gate_truthy assign_path_truthy)

lemma get_path2_truthy: "get_path (Some v) [k, k'] = Inr x \<Longrightarrow> truthy (Some v)"
  by (cases "own_prop v k"; cases v) (auto split: sum.splits simp: own_prop_def)

lemma populate_ok_truthy_schema:
  "populate env s plugin schema = (s', schema', None) \<Longrightarrow> truthy (Some schema)"
  unfolding populate_def Let_def
  by (auto simp del: assign_path.simps get_path.simps split: sum.splits prod.splits
      dest: get_path2_truthy)

text \<open>Decimal numerals consist of digits, so they are not names.\<close>

lemma dec_digits: "set (dec n) \<subseteq> set ''0123456789''"
proof (induction n rule: dec.induct)
  case (1 n)
  have d: "''0123456789'' ! k \<in> set ''0123456789''" if "k < 10" for k
    using that nth_mem [of k "''0123456789''"] by simp
  show ?case
  proof (cases "n < 10")
    case True
    then show ?thesis using d [of n] by (subst dec.simps) simp
  next
    case False
    then show ?thesis using 1 d [of "n mod 10"] by (subst dec.simps) simp
  qed
qed

lemma own_prop_named:
  assumes "own_prop v k = Some c" and "named k"
  shows "\<exists>kvs. v = JObj kvs \<and> map_of kvs k = Some c"
proof (cases v)
  case (JArr xs)
  with assms(1) have "k \<in> set (map dec [0..<length xs])"
    by (auto simp: own_prop_def dest!: map_of_SomeD set_zip_leftD)
  with assms(2) show ?thesis using dec_digits by (auto simp: named_def)
next
  case (JStr s)
  with assms(1) have "k \<in> set (map dec [0..<length s])"
    by (auto simp: own_prop_def dest!: map_of_SomeD set_zip_leftD)
  with assms(2) show ?thesis using dec_digits by (auto simp: named_def)
qed (use assms in \<open>auto simp: own_prop_def\<close>)

lemma named_keys [simp]:
  "named ''properties''" "named ''language_servers''" "named ''serverSettings''"
  "named ''definitions''" "named ''default''" "named ''description''" "named ''title''"
  by (simp_all add: named_def)

lemma get_prop_named:
  assumes "get_prop v k = Inr (Some c)" and "named k"
  shows "\<exists>kvs. v = Some (JObj kvs) \<and> map_of kvs k = Some c"
proof (cases v)
  case None
  with assms show ?thesis by simp
next
  case (Some x)
  with assms(1) have "own_prop x k = Some c" by (cases x) simp_all
  from own_prop_named [OF this assms(2)] Some show ?thesis by simp
qed

lemma get_path2_shape:
  assumes "get_path v [k1, k2] = Inr (Some c)" and "named k1" and "named k2"
  shows "\<exists>kvs kvs1. v = Some (JObj kvs) \<and> map_of kvs k1 = Some (JObj kvs1)
           \<and> map_of kvs1 k2 = Some c"
proof -
  from assms(1) obtain m where m: "get_prop v k1 = Inr m" and c: "get_prop m k2 = Inr (Some c)"
    by (auto split: sum.splits)
  from get_prop_named [OF c assms(3)] obtain kvs1 where
    "m = Some (JObj kvs1)" "map_of kvs1 k2 = Some c" by blast
  with get_prop_named [OF _ assms(2)] m show ?thesis by blast
qed

section \<open>The conflict dialog\<close>

text \<open>
  C1. The claim: the conflict dialog is shown if and only if some server produced a
  non-empty conflict list; the collapsed result is returned in either case. The code
  tests the number of keys of \<^verbatim>\<open>conflicts\<close>, which has a key for every server whose
  settings were collapsed, with or without conflicts. For the settings
  \<^verbatim>\<open>{"pyls": {"serverSettings": {"a": 1}}}\<close> and any flattening utility the dialog is
  shown, with the utility's conflict list for these settings as the only entry: also
  when that list is empty, as it is for settings without dotted keys. The result is
  returned all the same.
\<close>

theorem dialog_without_conflicts:
  "collapseServerSettingsDotted collapseToDotted
     (Some (JObj [(''pyls'', JObj [(''serverSettings'', JObj [(''a'', JNum 1)])])])) =
   Inr (JObj [(''pyls'', JObj [(''serverSettings'',
                collapsed_result (collapseToDotted (JObj [(''a'', JNum 1)])))])],
        Some [(''pyls'', collapsed_conflicts (collapseToDotted (JObj [(''a'', JNum 1)])))])"
  by (simp add: collapseServerSettingsDotted_def own_prop_def Let_def)

section \<open>References to missing definitions\<close>

text \<open>
  C2. The claim: a \<^verbatim>\<open>$ref\<close> to a definition that the fragment does not have is logged,
  left in place, and composition goes on with the other properties and specifications.
  The code logs the warning and then enumerates the missing definition, which throws:
  with the specifications \<open>r\<close> (such a reference) and \<open>pyls\<close> the loop ends with a
  TypeError after the warning, \<open>r\<close> has got its description and title, \<open>pyls\<close> has not
  been reached, and no map is produced.
\<close>

theorem missing_definition_throws:
  "populate_specs env sess base shared [(''r'', missing_ref_spec), (''pyls'', pyls_spec)] [] [] =
     ([(''r'', missing_ref_spec\<lparr>config_schema := Some (JObj
          [(''properties'', JObj [(''p'', JObj [(''$ref'', JStr ''#/definitions/missing'')])]),
           (''definitions'', JObj []),
           (''description'', JStr (if ''r'' \<notin> sess then tr env not_detected_message [''R'']
                                   else tr env detected_message [''R''])),
           (''title'', JStr (tr env title_message []))])\<rparr>),
       (''pyls'', pyls_spec)],
      [Warn ''Definition not found'' []],
      Inl TypeError)"
  by (simp add: missing_ref_spec_def populate_spec_def populate_config_schema_def own_prop_def
      startsWith_def)

section \<open>Rollback after a rejected schema\<close>

text \<open>
  C4, as the claim states it: after a rejection the rollback deletes
  \<open>language_servers.default\<close> if and only if the original schema lacked it. The test in
  the code is \<^verbatim>\<open>!original.properties!.language_servers.default\<close>, which also holds for
  a default that is present and falsy. With an original whose default is \<^verbatim>\<open>false\<close>, the
  default that composition has assigned is deleted, together with the properties.
\<close>

theorem rollback_falsy_default_counterexample:
  "get_path (Some falsy_default_schema) [''properties'', ''language_servers'', ''default'']
     = Inr (Some (JBool False))
   \<and> fst (snd (validation_gate rejecting_env
        ((initial [] {})\<lparr>original := Some falsy_default_schema\<rparr>) example_plugin
        composed_schema []))
     = JObj [(''type'', JStr ''object''),
             (''properties'', JObj [(''language_servers'', JObj [(''type'', JStr ''object'')])])]"
  by (simp add: validation_gate_def rollback_def rejecting_env_def initial_def own_prop_def
      falsy_default_schema_def composed_schema_def)

text \<open>
  C4, amended. When the validator reports errors on the composed schema, the original
  schema has been captured and has a \<open>language_servers\<close> member, then the validation ends
  without an exception, the errors are stored in \<^verbatim>\<open>_validationErrors\<close>, and of the
  members \<open>ls\<close> of the composed \<open>language_servers\<close> exactly these are deleted:
  \<open>properties\<close> if and only if the original's \<open>properties\<close> is absent or falsy, \<open>default\<close>
  if and only if the original's \<open>default\<close> is absent or falsy.
\<close>

theorem rollback_field_granular:
  assumes rejected:
      "validateData env
         \<lparr>plugin_id = validation_id (validationAttempt s + 1), raw = raw plugin,
          data = \<lparr>composite = JObj [], user = JObj []\<rparr>, version = version plugin,
          plugin_schema = schema\<rparr> = Some errs"
    and captured: "original s = Some orig"
    and original_ls: "get_path (Some orig) [''properties'', ''language_servers''] = Inr (Some ols)"
      "ols \<noteq> JNull"
    and composed: "get_path (Some schema) [''properties'', ''language_servers''] = Inr (Some (JObj ls))"
  shows "\<exists>s' schema'.
           validation_gate env s plugin schema defaults = (s', schema', None)
         \<and> this_validationErrors s' = errs
         \<and> get_path (Some schema') [''properties'', ''language_servers''] =
             Inr (Some (JObj
               ((if truthy (own_prop ols ''default'') then id else AList.delete ''default'')
                 ((if truthy (own_prop ols ''properties'') then id else AList.delete ''properties'')
                    ls))))"
proof -
  from get_path2_shape [OF composed] obtain sk pk where
    schema: "schema = JObj sk" and pk: "map_of sk ''properties'' = Some (JObj pk)"
    and ls: "map_of pk ''language_servers'' = Some (JObj ls)" by auto
  from get_path2_shape [OF original_ls(1)] obtain ok opk where
    orig: "orig = JObj ok" and opk: "map_of ok ''properties'' = Some (JObj opk)"
    and ols: "map_of opk ''language_servers'' = Some ols" by auto
  have gp: "get_prop (Some ols) k = Inr (own_prop ols k)" for k
    using original_ls(2) by (cases ols) simp_all
  have rb: "rollback (Some orig) schema =
      (JObj (AList.update ''properties'' (JObj (AList.update ''language_servers'' (JObj
               ((if truthy (own_prop ols ''default'') then id else AList.delete ''default'')
                 ((if truthy (own_prop ols ''properties'') then id else AList.delete ''properties'')
                    ls))) pk)) sk), None)"
    by (simp add: rollback_def schema orig own_prop_def[of "JObj _"] opk ols gp pk ls update_conv'
        update_triv)
  have t: "truthy (Some orig)" by (simp add: orig)
  show ?thesis
    using rejected
    by (simp add: validation_gate_def Let_def captured t rb own_prop_def[of "JObj _"] update_conv')
qed

theorem rollback_field_granular_witness:
  "validateData rejecting_env
     \<lparr>plugin_id = validation_id (validationAttempt ((initial [] {})\<lparr>original := Some example_schema\<rparr>) + 1),
      raw = raw example_plugin, data = \<lparr>composite = JObj [], user = JObj []\<rparr>,
      version = version example_plugin, plugin_schema = composed_schema\<rparr> = Some [JStr ''rejected'']
   \<and> get_path (Some example_schema) [''properties'', ''language_servers'']
       = Inr (Some (JObj [(''type'', JStr ''object''), (''default'', JObj [])]))
   \<and> get_path (Some composed_schema) [''properties'', ''language_servers'']
       = Inr (Some (JObj [(''type'', JStr ''object''), (''default'', JObj []), (''properties'', JObj [])]))
   \<and> (\<exists>s' schema'.
         validation_gate rejecting_env ((initial [] {})\<lparr>original := Some example_schema\<rparr>)
           example_plugin composed_schema [] = (s', schema', None)
       \<and> this_validationErrors s' = [JStr ''rejected'']
       \<and> get_path (Some schema') [''properties'', ''language_servers'']
           = Inr (Some (JObj [(''type'', JStr ''object''), (''default'', JObj [])])))"
proof -
  let ?s = "(initial [] {})\<lparr>original := Some example_schema\<rparr>"
  let ?ols = "JObj [(''type'', JStr ''object''), (''default'', JObj [])]"
  let ?ls = "[(''type'', JStr ''object''), (''default'', JObj []), (''properties'', JObj [])]"
  have h1: "validateData rejecting_env
     \<lparr>plugin_id = validation_id (validationAttempt ?s + 1),
      raw = raw example_plugin, data = \<lparr>composite = JObj [], user = JObj []\<rparr>,
      version = version example_plugin, plugin_schema = composed_schema\<rparr> = Some [JStr ''rejected'']"
    by (simp add: rejecting_env_def)
  have h2: "original ?s = Some example_schema" by simp
  have h3: "get_path (Some example_schema) [''properties'', ''language_servers''] = Inr (Some ?ols)"
    by (simp add: example_schema_def own_prop_def)
  have h4: "?ols \<noteq> JNull" by simp
  have h5: "get_path (Some composed_schema) [''properties'', ''language_servers'']
      = Inr (Some (JObj ?ls))"
    by (simp add: composed_schema_def own_prop_def)
  from rollback_field_granular [OF h1 h2 h3 h4 h5, of "[]"] h1 h3 h5 show ?thesis
    by (simp add: own_prop_def)
qed

section \<open>The original schema and the cached schema\<close>

lemma fetch_cached_state:
  assumes "truthy (canonical s)" and "truthy (original s)"
  shows "fetch env s p = (s, Inr (p\<lparr>plugin_schema := the (canonical s)\<rparr>))"
  using assms by (cases "canonical s") (simp_all add: fetch_def)

lemma fetch_original_kept:
  "truthy (original s) \<Longrightarrow> original (fst (fetch env s p)) = original s"
  by (cases "populate env (s\<lparr>canonical := Some (plugin_schema p)\<rparr>) p (plugin_schema p)")
     (auto simp: fetch_def Let_def split: option.splits dest: populate_original)

lemma fetch_original_captured:
  "\<not> truthy (original s) \<Longrightarrow> original (fst (fetch env s p)) = Some (plugin_schema p)"
  by (cases "populate env
        (s\<lparr>original := Some (plugin_schema p), canonical := Some (plugin_schema p)\<rparr>) p
        (plugin_schema p)")
     (auto simp: fetch_def Let_def split: option.splits dest: populate_original)

lemma step_original_kept:
  "truthy (original s) \<Longrightarrow> original (step env pluginId s ev) = original s"
  by (cases ev) (simp_all add: fetch_original_kept sessionsChanged_def)

lemma run_original_kept:
  "truthy (original s) \<Longrightarrow> original (run env pluginId s evs) = original s"
  by (induction evs arbitrary: s) (simp_all add: step_original_kept)

text \<open>
  C5. In a state where no original schema has been captured yet, the fetch of a plugin
  (whose schema is an object, hence truthy) captures a copy of its schema, and whatever
  happens afterwards, fetches of other schemas and changes of the sessions in any order,
  \<^verbatim>\<open>original\<close> stays that copy. The handler of \<^verbatim>\<open>sessionsChanged\<close> changes \<^verbatim>\<open>canonical\<close>
  and nothing else of the state. The rollback reads \<^verbatim>\<open>original\<close> of the state it runs in
  (see \<open>validation_gate\<close>).
\<close>

theorem original_captured_once:
  assumes "\<not> truthy (original s)" and "truthy (Some (plugin_schema p))"
  shows "original (run env pluginId s (Fetch p # evs)) = Some (deepCopy (Some (plugin_schema p)))
       \<and> sessionsChanged pluginId s' = (s'\<lparr>canonical := None\<rparr>, pluginId)"
  using assms
  by (simp add: run_original_kept fetch_original_captured sessionsChanged_def)

theorem original_captured_once_witness:
  "\<not> truthy (original (initial [(''pyls'', pyls_spec)] {}))
   \<and> truthy (Some (plugin_schema example_plugin))
   \<and> original (run rejecting_env ''lsp'' (initial [(''pyls'', pyls_spec)] {})
        [Fetch example_plugin, SessionsChanged [] {''pyls''},
         Fetch (example_plugin\<lparr>plugin_schema := falsy_default_schema\<rparr>)])
       = Some example_schema"
proof -
  have h1: "\<not> truthy (original (initial [(''pyls'', pyls_spec)] {}))"
    by (simp add: initial_def)
  have h2: "truthy (Some (plugin_schema example_plugin))"
    by (simp add: example_plugin_def example_schema_def)
  have "plugin_schema example_plugin = example_schema"
    by (simp add: example_plugin_def)
  with original_captured_once [OF h1 h2, of rejecting_env "''lsp''"
      "[SessionsChanged [] {''pyls''}, Fetch (example_plugin\<lparr>plugin_schema := falsy_default_schema\<rparr>)]"]
    h1 h2
  show ?thesis by (simp del: run.simps)
qed

lemma validation_gate_attempt:
  "validation_gate env s plugin schema defaults = (s', schema', err) \<Longrightarrow>
     validationAttempt s' = validationAttempt s + 1"
  unfolding validation_gate_def Let_def
  by (auto split: option.splits if_splits prod.splits)

lemma populate_ok_attempt:
  "populate env s plugin schema = (s', schema', None) \<Longrightarrow>
     validationAttempt s' = validationAttempt s + 1"
  unfolding populate_def Let_def
  by (auto simp del: assign_path.simps get_path.simps split: sum.splits prod.splits
      dest: validation_gate_attempt)

lemma populate_truthy:
  "populate env s plugin schema = (s', schema', err) \<Longrightarrow> truthy (Some schema) \<Longrightarrow>
     truthy (Some schema')"
  unfolding populate_def Let_def
  by (auto simp del: assign_path.simps get_path.simps split: sum.splits prod.splits
      dest: validation_gate_truthy assign_path_truthy)

text \<open>
  C6. A fetch that finds the cache absent calls \<^verbatim>\<open>populate\<close> on a copy of the plugin's
  schema, and \<^verbatim>\<open>canonical\<close> is what \<^verbatim>\<open>populate\<close> made of that copy. When \<^verbatim>\<open>populate\<close>
  returns, the fetch returns that schema and the validator has been called once (the
  attempt counter is one higher); when \<^verbatim>\<open>populate\<close> throws, the fetch throws, and
  \<^verbatim>\<open>canonical\<close> is the copy as it was when the exception left \<^verbatim>\<open>populate\<close>. In both
  cases (in the second for a schema that is an object, as its type says) every later
  fetch, of whatever plugin object, returns that same cached schema and leaves the whole
  state as it is: no composition (the specifications and the console are unchanged) and
  no validation (the attempt counter is unchanged) take place until \<^verbatim>\<open>canonical\<close> is
  cleared.
\<close>

theorem fetch_cached:
  assumes absent: "\<not> truthy (canonical s)"
    and first: "fetch env s p = (s1, res)"
  shows "\<exists>s2 schema' err.
       populate env
         ((if \<not> truthy (original s)
           then s\<lparr>original := Some (deepCopy (Some (plugin_schema p)))\<rparr> else s)
          \<lparr>canonical := Some (deepCopy (Some (plugin_schema p)))\<rparr>)
         p (deepCopy (Some (plugin_schema p))) = (s2, schema', err)
     \<and> s1 = s2\<lparr>canonical := Some schema'\<rparr>
     \<and> res = (case err of None \<Rightarrow> Inr (p\<lparr>plugin_schema := schema'\<rparr>) | Some e \<Rightarrow> Inl e)
     \<and> (err = None \<longrightarrow> validationAttempt s1 = validationAttempt s + 1)
     \<and> (err = None \<or> truthy (Some (plugin_schema p)) \<longrightarrow>
           (\<forall>p'. fetch env s1 p' = (s1, Inr (p'\<lparr>plugin_schema := schema'\<rparr>)))
         \<and> run env pluginId s1 (map Fetch ps) = s1)"
proof -
  define s0 where "s0 = (if \<not> truthy (original s)
      then s\<lparr>original := Some (deepCopy (Some (plugin_schema p)))\<rparr> else s)"
  have c0: "\<not> truthy (canonical s0)"
    using absent by (simp add: s0_def)
  have a0: "validationAttempt s0 = validationAttempt s"
    by (simp add: s0_def)
  obtain s2 schema' err where pop:
    "populate env (s0\<lparr>canonical := Some (plugin_schema p)\<rparr>) p (plugin_schema p) = (s2, schema', err)"
    by (cases "populate env (s0\<lparr>canonical := Some (plugin_schema p)\<rparr>) p (plugin_schema p)") auto
  from first c0 pop have s1: "s1 = s2\<lparr>canonical := Some schema'\<rparr>"
    and res: "res = (case err of None \<Rightarrow> Inr (p\<lparr>plugin_schema := schema'\<rparr>) | Some e \<Rightarrow> Inl e)"
    by (auto simp: fetch_def Let_def s0_def[symmetric] split: option.splits)
  have att: "validationAttempt s1 = validationAttempt s + 1" if "err = None"
    using populate_ok_attempt [OF pop [unfolded that]] a0 by (simp add: s1)
  have later: "(\<forall>p'. fetch env s1 p' = (s1, Inr (p'\<lparr>plugin_schema := schema'\<rparr>)))
         \<and> run env pluginId s1 (map Fetch ps) = s1"
    if ok: "err = None \<or> truthy (Some (plugin_schema p))"
  proof -
    from ok pop have t: "truthy (Some (plugin_schema p))"
      by (auto dest: populate_ok_truthy_schema)
    from populate_truthy [OF pop t] have t': "truthy (Some schema')" .
    from pop have "original s2 = original s0"
      by (auto dest: populate_original)
    with t have o1: "truthy (original s1)"
      by (simp add: s1 s0_def)
    have c1: "canonical s1 = Some schema'"
      by (simp add: s1)
    with t' have tc: "truthy (canonical s1)" by simp
    have again: "fetch env s1 p' = (s1, Inr (p'\<lparr>plugin_schema := schema'\<rparr>))" for p'
      using fetch_cached_state [OF tc o1, of env p'] c1 by simp
    have "run env pluginId s1 (map Fetch ps) = s1"
      by (induction ps) (simp_all add: again)
    with again show ?thesis by simp
  qed
  have pop': "populate env
         ((if \<not> truthy (original s)
           then s\<lparr>original := Some (deepCopy (Some (plugin_schema p)))\<rparr> else s)
          \<lparr>canonical := Some (deepCopy (Some (plugin_schema p)))\<rparr>)
         p (deepCopy (Some (plugin_schema p))) = (s2, schema', err)"
    using pop by (simp add: s0_def)
  have att': "err = None \<longrightarrow> validationAttempt s1 = validationAttempt s + 1"
    using att by simp
  have later': "err = None \<or> truthy (Some (plugin_schema p)) \<longrightarrow>
           (\<forall>p'. fetch env s1 p' = (s1, Inr (p'\<lparr>plugin_schema := schema'\<rparr>)))
         \<and> run env pluginId s1 (map Fetch ps) = s1"
    using later by (intro impI)
  show ?thesis
    by (intro exI [of _ s2] exI [of _ schema'] exI [of _ err] conjI)
       (fact pop' s1 res att' later')+
qed


theorem fetch_cached_witness:
  "\<not> truthy (canonical (initial [(''pyls'', pyls_spec)] {}))
   \<and> (\<exists>s1 r. fetch example_env (initial [(''pyls'', pyls_spec)] {}) example_plugin = (s1, Inr r)
        \<and> canonical s1 = Some (plugin_schema r)
        \<and> validationAttempt s1 = validationAttempt (initial [(''pyls'', pyls_spec)] {}) + 1
        \<and> (\<forall>p'. fetch example_env s1 p' = (s1, Inr (p'\<lparr>plugin_schema := plugin_schema r\<rparr>)))
        \<and> run example_env ''lsp'' s1 (map Fetch [example_plugin, example_plugin]) = s1)
   \<and> \<not> truthy (canonical (initial [(''r'', missing_ref_spec)] {}))
   \<and> truthy (Some (plugin_schema example_plugin))
   \<and> (\<exists>s1 e schema'.
          fetch example_env (initial [(''r'', missing_ref_spec)] {}) example_plugin = (s1, Inl e)
        \<and> canonical s1 = Some schema'
        \<and> (\<forall>p'. fetch example_env s1 p' = (s1, Inr (p'\<lparr>plugin_schema := schema'\<rparr>)))
        \<and> run example_env ''lsp'' s1 (map Fetch [example_plugin, example_plugin]) = s1)"
proof -
  let ?s = "initial [(''pyls'', pyls_spec)] {}"
  let ?t = "initial [(''r'', missing_ref_spec)] {}"
  let ?ps = "[example_plugin, example_plugin]"
  have h1: "\<not> truthy (canonical ?s)" and g1: "\<not> truthy (canonical ?t)"
    by (simp_all add: initial_def)
  have obj: "truthy (Some (plugin_schema example_plugin))"
    by (simp add: example_plugin_def example_schema_def)
  have "\<exists>r. snd (fetch example_env ?s example_plugin) = Inr r"
    by (simp add: fetch_def populate_def validation_gate_def populate_spec_def
        populate_config_schema_def getDefaults_def own_prop_def initial_def example_env_def
        example_plugin_def example_schema_def pyls_spec_def Let_def List.map_filter_def
        optional_default_def)
  then obtain s1 r where h2: "fetch example_env ?s example_plugin = (s1, Inr r)"
    by (cases "fetch example_env ?s example_plugin") auto
  have "\<exists>e. snd (fetch example_env ?t example_plugin) = Inl e"
    by (simp add: fetch_def populate_def validation_gate_def populate_spec_def
        populate_config_schema_def getDefaults_def own_prop_def initial_def example_env_def
        example_plugin_def example_schema_def missing_ref_spec_def Let_def List.map_filter_def
        optional_default_def startsWith_def)
  then obtain t1 e where g2: "fetch example_env ?t example_plugin = (t1, Inl e)"
    by (cases "fetch example_env ?t example_plugin") auto
  let ?B = "\<lambda>s p res s1 s2 schema' err.
       populate example_env
         ((if \<not> truthy (original s)
           then s\<lparr>original := Some (deepCopy (Some (plugin_schema p)))\<rparr> else s)
          \<lparr>canonical := Some (deepCopy (Some (plugin_schema p)))\<rparr>)
         p (deepCopy (Some (plugin_schema p))) = (s2, schema', err)
     \<and> s1 = s2\<lparr>canonical := Some schema'\<rparr>
     \<and> res = (case err of None \<Rightarrow> Inr (p\<lparr>plugin_schema := schema'\<rparr>) | Some e \<Rightarrow> Inl e)
     \<and> (err = None \<longrightarrow> validationAttempt s1 = validationAttempt s + 1)
     \<and> (err = None \<or> truthy (Some (plugin_schema p)) \<longrightarrow>
           (\<forall>p'. fetch example_env s1 p' = (s1, Inr (p'\<lparr>plugin_schema := schema'\<rparr>)))
         \<and> run example_env ''lsp'' s1 (map Fetch ?ps) = s1)"
  from fetch_cached [OF h1 h2, of "''lsp''" ?ps]
  have "\<exists>s2 schema' err. ?B ?s example_plugin (Inr r) s1 s2 schema' err" .
  then obtain s2 where "\<exists>schema' err. ?B ?s example_plugin (Inr r) s1 s2 schema' err" ..
  then obtain schema' where "\<exists>err. ?B ?s example_plugin (Inr r) s1 s2 schema' err" ..
  then obtain err where big: "?B ?s example_plugin (Inr r) s1 s2 schema' err" ..
  note a = big [THEN conjunct2, THEN conjunct1]
  note b = big [THEN conjunct2, THEN conjunct2, THEN conjunct1]
  note c = big [THEN conjunct2, THEN conjunct2, THEN conjunct2, THEN conjunct1]
  note d = big [THEN conjunct2, THEN conjunct2, THEN conjunct2, THEN conjunct2]
  from b have err: "err = None" and r: "plugin_schema r = schema'"
    by (cases err; auto)+
  from a r have a1: "canonical s1 = Some (plugin_schema r)" by simp
  from c err have a2: "validationAttempt s1 = validationAttempt ?s + 1" by simp
  from d err r have a3: "\<forall>p'. fetch example_env s1 p' = (s1, Inr (p'\<lparr>plugin_schema := plugin_schema r\<rparr>))"
    and a4: "run example_env ''lsp'' s1 (map Fetch ?ps) = s1" by simp_all
  from fetch_cached [OF g1 g2, of "''lsp''" ?ps]
  have "\<exists>s2 schema' err. ?B ?t example_plugin (Inl e) t1 s2 schema' err" .
  then obtain t2 where "\<exists>schema' err. ?B ?t example_plugin (Inl e) t1 t2 schema' err" ..
  then obtain schema2 where "\<exists>err. ?B ?t example_plugin (Inl e) t1 t2 schema2 err" ..
  then obtain err2 where big2: "?B ?t example_plugin (Inl e) t1 t2 schema2 err2" ..
  note a' = big2 [THEN conjunct2, THEN conjunct1]
  note d' = big2 [THEN conjunct2, THEN conjunct2, THEN conjunct2, THEN conjunct2]
  from a' have b1: "canonical t1 = Some schema2" by simp
  from d' obj have b2: "\<forall>p'. fetch example_env t1 p' = (t1, Inr (p'\<lparr>plugin_schema := schema2\<rparr>))"
    and b3: "run example_env ''lsp'' t1 (map Fetch ?ps) = t1" by simp_all
  have first: "\<exists>s1 r. fetch example_env ?s example_plugin = (s1, Inr r)
        \<and> canonical s1 = Some (plugin_schema r)
        \<and> validationAttempt s1 = validationAttempt ?s + 1
        \<and> (\<forall>p'. fetch example_env s1 p' = (s1, Inr (p'\<lparr>plugin_schema := plugin_schema r\<rparr>)))
        \<and> run example_env ''lsp'' s1 (map Fetch ?ps) = s1"
    by (intro exI [of _ s1] exI [of _ r] conjI) (fact h2 a1 a2 a3 a4)+
  have second: "\<exists>s1 e schema'.
          fetch example_env ?t example_plugin = (s1, Inl e)
        \<and> canonical s1 = Some schema'
        \<and> (\<forall>p'. fetch example_env s1 p' = (s1, Inr (p'\<lparr>plugin_schema := schema'\<rparr>)))
        \<and> run example_env ''lsp'' s1 (map Fetch ?ps) = s1"
    by (intro exI [of _ t1] exI [of _ e] exI [of _ schema2] conjI) (fact g2 b1 b2 b3)+
  show ?thesis
    by (intro conjI) (fact h1 first g1 obj second)+
qed

section \<open>The compose hook\<close>

text \<open>
  C10. When the compose hook returns, \<^verbatim>\<open>language_servers\<close> of the user data and of the
  composite data are both the value that \<^verbatim>\<open>_collapseServerSettingsDotted\<close> returned for
  the user's \<^verbatim>\<open>language_servers\<close>; every other key of both has the value it had in the
  user data before the call; the rest of the plugin is unchanged. The defaults recorded
  by \<^verbatim>\<open>populate\<close> are no argument of \<open>compose\<close>: nothing is merged in or pruned.
\<close>

theorem compose_composite:
  assumes "compose collapseToDotted plugin = Inr (plugin', dialog)"
  shows "\<exists>collapsedSettings.
           collapseServerSettingsDotted collapseToDotted
             (own_prop (user (data plugin)) ''language_servers'') = Inr (collapsedSettings, dialog)
         \<and> own_prop (user (data plugin')) ''language_servers'' = Some collapsedSettings
         \<and> own_prop (composite (data plugin')) ''language_servers'' = Some collapsedSettings
         \<and> (\<forall>k. k \<noteq> ''language_servers'' \<longrightarrow>
               own_prop (composite (data plugin')) k = own_prop (user (data plugin)) k
             \<and> own_prop (user (data plugin')) k = own_prop (user (data plugin)) k)
         \<and> plugin' = plugin\<lparr>data := data plugin'\<rparr>"
proof (cases "user (data plugin)")
  case (JObj kvs)
  with assms show ?thesis
    by (auto simp: compose_def Let_def own_prop_def update_conv' split: sum.splits)
qed (use assms in \<open>auto simp: compose_def Let_def own_prop_def split: sum.splits\<close>)

theorem compose_composite_witness:
  "\<exists>plugin' dialog.
     compose no_conflicts example_plugin = Inr (plugin', dialog)
   \<and> (\<exists>collapsedSettings.
         collapseServerSettingsDotted no_conflicts
           (own_prop (user (data example_plugin)) ''language_servers'') = Inr (collapsedSettings, dialog)
       \<and> own_prop (user (data plugin')) ''language_servers'' = Some collapsedSettings
       \<and> own_prop (composite (data plugin')) ''language_servers'' = Some collapsedSettings
       \<and> own_prop (composite (data plugin')) ''logAllCommunication''
           = own_prop (user (data example_plugin)) ''logAllCommunication'')"
proof -
  have "\<exists>x. compose no_conflicts example_plugin = Inr x"
    by (simp add: compose_def collapseServerSettingsDotted_def no_conflicts_def own_prop_def
        example_plugin_def Let_def)
  then obtain plugin' dialog where h: "compose no_conflicts example_plugin = Inr (plugin', dialog)"
    by auto
  from compose_composite [OF h] h show ?thesis by auto
qed

section \<open>The loop over the specifications\<close>

lemma populate_spec_skipped:
  "skipped k spec \<Longrightarrow>
     populate_spec env sess base shared k spec = ([skip_warning k spec], spec, Inr None)"
  by (cases "config_schema spec")
     (auto simp: skipped_def skip_warning_def populate_spec_def)

lemma truthy_Some: "truthy v \<Longrightarrow> \<exists>x. v = Some x"
  by (cases v) simp_all

lemma populate_config_schema_unfold:
  "populate_config_schema env b name kvs =
     (let cs2 = AList.update ''title'' (JStr (tr env title_message []))
                  (AList.update ''description'' (JStr (description_text env b name)) kvs)
      in case map_of kvs ''properties'' of
           None \<Rightarrow> ([], JObj cs2, Some TypeError)
         | Some properties \<Rightarrow>
             (case object_entries (Some properties) of
                Inl e \<Rightarrow> ([], JObj cs2, Some e)
              | Inr es \<Rightarrow>
                  (case inline_refs (map_of kvs ''definitions'') es of
                     (es', w, r) \<Rightarrow>
                       (w, JObj (AList.update ''properties'' (with_children properties es') cs2), r))))"
  by (auto simp add: populate_config_schema_def description_text_def Let_def update_conv'
      split: option.splits sum.splits)

text \<open>The fragment after a step that was not skipped.\<close>

lemma populate_config_schema_shape:
  assumes "populate_config_schema env b name kvs = (w, cs', err)"
  shows "\<exists>cs. cs' = JObj cs
     \<and> map_of cs ''description'' = Some (JStr (description_text env b name))
     \<and> map_of cs ''title'' = Some (JStr (tr env title_message []))"
  using assms unfolding populate_config_schema_unfold Let_def
  by (auto split: option.splits sum.splits prod.splits simp: update_conv')

lemma populate_spec_not_skipped:
  assumes "\<not> skipped k spec"
    and "populate_spec env sess base shared k spec = (w, spec', r)"
  shows "\<exists>kvs cs' err.
       config_schema spec = Some (JObj kvs)
     \<and> populate_config_schema env (k \<in> sess) (display_name spec) kvs = (w, cs', err)
     \<and> spec' = spec\<lparr>config_schema := Some cs'\<rparr>
     \<and> (case err of
          Some e \<Rightarrow> r = Inl e
        | None \<Rightarrow>
           (case assign_path (deepCopy base) [''properties''] ''serverSettings'' cs' of
              Inl e \<Rightarrow> r = Inl e
            | Inr entry \<Rightarrow>
                r = Inr (Some (entry,
                      JObj (AList.update ''serverSettings''
                              (JObj (getDefaults (own_prop cs' ''properties''))) shared)))))"
proof -
  from assms(1) obtain cs where cs: "config_schema spec = Some cs" "truthy (Some cs)"
    "truthy (own_prop cs ''properties'')" and k: "k \<noteq> []"
    by (auto simp: skipped_def split: option.splits)
  from truthy_Some [OF cs(3)] obtain p where "own_prop cs ''properties'' = Some p" by blast
  from own_prop_named [OF this] obtain kvs where kvs: "cs = JObj kvs" by auto
  obtain w1 cs' err where pcs:
    "populate_config_schema env (k \<in> sess) (display_name spec) kvs = (w1, cs', err)"
    by (cases "populate_config_schema env (k \<in> sess) (display_name spec) kvs") auto
  with assms(2) cs k kvs show ?thesis
    by (auto simp: populate_spec_def Let_def del: notI split: option.splits sum.splits)
qed


lemma populate_specs_other:
  assumes "populate_specs env sess base shared sp known0 defs0 = (sp', w, Inr (known, defs))"
    and "k \<notin> fst ` set sp"
  shows "map_of known k = map_of known0 k \<and> map_of defs k = map_of defs0 k"
  using assms
proof (induction sp arbitrary: known0 defs0 sp' w)
  case Nil
  then show ?case by simp
next
  case (Cons a sp)
  obtain k1 spec1 where a: "a = (k1, spec1)" by (cases a)
  from Cons.prems(2) a have k1: "k1 \<noteq> k" and rest: "k \<notin> fst ` set sp" by auto
  obtain w1 spec1' r1 where step: "populate_spec env sess base shared k1 spec1 = (w1, spec1', r1)"
    by (cases "populate_spec env sess base shared k1 spec1") auto
  show ?case
  proof (cases r1)
    case (Inl e)
    with Cons.prems(1) step a show ?thesis by simp
  next
    case (Inr r)
    define known1 where "known1 = (case r of None \<Rightarrow> known0
      | Some (entry, dflt) \<Rightarrow> AList.update k1 entry known0)"
    define defs1 where "defs1 = (case r of None \<Rightarrow> defs0
      | Some (entry, dflt) \<Rightarrow> AList.update k1 dflt defs0)"
    obtain rest' w' where
      "populate_specs env sess base shared sp known1 defs1 = (rest', w', Inr (known, defs))"
      using Cons.prems(1) step a Inr
      by (auto simp: known1_def defs1_def split: prod.splits option.splits)
    from Cons.IH [OF this rest] k1 show ?thesis
      by (auto simp: known1_def defs1_def update_conv' split: option.splits)
  qed
qed

lemma populate_specs_entry:
  assumes "populate_specs env sess base shared sp known0 defs0 = (sp', w, Inr (known, defs))"
    and "distinct (map fst sp)" and "(k, spec) \<in> set sp"
  shows "\<exists>w_k spec' r_k.
       populate_spec env sess base shared k spec = (w_k, spec', Inr r_k)
     \<and> map_of sp' k = Some spec' \<and> set w_k \<subseteq> set w
     \<and> (case r_k of
          None \<Rightarrow> map_of known k = map_of known0 k \<and> map_of defs k = map_of defs0 k
        | Some (entry, dflt) \<Rightarrow> map_of known k = Some entry \<and> map_of defs k = Some dflt)"
  using assms
proof (induction sp arbitrary: known0 defs0 sp' w)
  case Nil
  then show ?case by simp
next
  case (Cons a sp)
  obtain k1 spec1 where a: "a = (k1, spec1)" by (cases a)
  obtain w1 spec1' r1 where step: "populate_spec env sess base shared k1 spec1 = (w1, spec1', r1)"
    by (cases "populate_spec env sess base shared k1 spec1") auto
  from Cons.prems(2) a have notin: "k1 \<notin> fst ` set sp" and dist: "distinct (map fst sp)"
    by auto
  show ?case
  proof (cases r1)
    case (Inl e)
    with Cons.prems(1) step a show ?thesis by simp
  next
    case (Inr r)
    define known1 where "known1 = (case r of None \<Rightarrow> known0
      | Some (entry, dflt) \<Rightarrow> AList.update k1 entry known0)"
    define defs1 where "defs1 = (case r of None \<Rightarrow> defs0
      | Some (entry, dflt) \<Rightarrow> AList.update k1 dflt defs0)"
    obtain rest' w' where tail:
      "populate_specs env sess base shared sp known1 defs1 = (rest', w', Inr (known, defs))"
      and sp': "sp' = (k1, spec1') # rest'" and w: "w = w1 @ w'"
      using Cons.prems(1) step a Inr
      by (auto simp: known1_def defs1_def split: prod.splits option.splits)
    show ?thesis
    proof (cases "k = k1")
      case True
      have "(k1, spec) \<notin> set sp" using notin by force
      with True Cons.prems(3) a have spec: "spec = spec1" by auto
      from populate_specs_other [OF tail notin]
      have "map_of known k1 = map_of known1 k1" "map_of defs k1 = map_of defs1 k1" by simp_all
      with True spec step Inr sp' w show ?thesis
        by (auto simp: known1_def defs1_def update_conv' split: option.splits)
    next
      case False
      with Cons.prems(3) a have mem: "(k, spec) \<in> set sp" by auto
      from Cons.IH [OF tail dist mem] obtain w_k spec' r_k where
        ih: "populate_spec env sess base shared k spec = (w_k, spec', Inr r_k)"
          "map_of rest' k = Some spec'" "set w_k \<subseteq> set w'"
          "(case r_k of
              None \<Rightarrow> map_of known k = map_of known1 k \<and> map_of defs k = map_of defs1 k
            | Some (entry, dflt) \<Rightarrow> map_of known k = Some entry \<and> map_of defs k = Some dflt)"
        by blast
      with False sp' w show ?thesis
        by (auto simp: known1_def defs1_def update_conv' split: option.splits)
    qed
  qed
qed

lemma populate_specs_keys:
  assumes "populate_specs env sess base shared sp known0 defs0 = (sp', w, Inr (known, defs))"
  shows "fst ` set known = fst ` set known0 \<union> {k. \<exists>spec. (k, spec) \<in> set sp \<and> \<not> skipped k spec}
    \<and> fst ` set defs = fst ` set defs0 \<union> {k. \<exists>spec. (k, spec) \<in> set sp \<and> \<not> skipped k spec}
    \<and> (distinct (map fst known0) \<longrightarrow> distinct (map fst known))
    \<and> (distinct (map fst defs0) \<longrightarrow> distinct (map fst defs))"
  using assms
proof (induction sp arbitrary: known0 defs0 sp' w)
  case Nil
  then show ?case by simp
next
  case (Cons a sp)
  obtain k1 spec1 where a: "a = (k1, spec1)" by (cases a)
  show ?case
  proof (cases "skipped k1 spec1")
    case True
    with Cons.prems a obtain rest' w' where
      "populate_specs env sess base shared sp known0 defs0 = (rest', w', Inr (known, defs))"
      by (auto simp: populate_spec_skipped split: prod.splits)
    from Cons.IH [OF this] True a show ?thesis by auto
  next
    case False
    obtain w1 spec1' r1 where step: "populate_spec env sess base shared k1 spec1 = (w1, spec1', r1)"
      by (cases "populate_spec env sess base shared k1 spec1") auto
    from populate_spec_not_skipped [OF False step] Cons.prems a step
    obtain entry dflt rest' w' where
      "populate_specs env sess base shared sp (AList.update k1 entry known0)
         (AList.update k1 dflt defs0) = (rest', w', Inr (known, defs))"
      by (auto split: prod.splits option.splits sum.splits)
    from Cons.IH [OF this] False a show ?thesis
      by (auto simp: dom_update distinct_update)
  qed
qed


lemma fold_update_map_of:
  "map_of (fold (\<lambda>(k, v) d. AList.update k v d) xs acc) = map_of acc ++ map_of (rev xs)"
  by (induction xs arbitrary: acc) (auto simp: update_conv' fun_eq_iff map_add_def split: option.splits)

lemma map_of_rev_distinct: "distinct (map fst xs) \<Longrightarrow> map_of (rev xs) = map_of xs"
  by (rule map_of_inject_set [THEN iffD2]) (simp_all add: rev_map [symmetric])

lemma map_filter_keys:
  "fst ` set (List.map_filter (\<lambda>(k, v). map_option (Pair k) (f v)) xs) \<subseteq> fst ` set xs"
  by (induction xs) (auto simp: List.map_filter_simps split: option.splits)

lemma map_filter_distinct:
  "distinct (map fst xs) \<Longrightarrow>
     distinct (map fst (List.map_filter (\<lambda>(k, v). map_option (Pair k) (f v)) xs))"
proof (induction xs)
  case Nil
  then show ?case by (simp add: List.map_filter_simps)
next
  case (Cons a xs)
  obtain k v where a: "a = (k, v)" by (cases a)
  from Cons.prems a have "k \<notin> fst ` set xs" by auto
  with map_filter_keys [of f xs]
  have "k \<notin> fst ` set (List.map_filter (\<lambda>(k, v). map_option (Pair k) (f v)) xs)" by blast
  with Cons a show ?case
    by (auto simp: List.map_filter_simps split: option.splits)
qed

lemma map_filter_map_of:
  "distinct (map fst xs) \<Longrightarrow>
     map_of (List.map_filter (\<lambda>(k, v). map_option (Pair k) (f v)) xs) key =
       (case map_of xs key of None \<Rightarrow> None | Some v \<Rightarrow> f v)"
proof (induction xs)
  case Nil
  then show ?case by (simp add: List.map_filter_simps)
next
  case (Cons a xs)
  obtain k v where a: "a = (k, v)" by (cases a)
  from Cons.prems a have notin: "k \<notin> fst ` set xs" by auto
  with map_filter_keys [of f xs]
  have "k \<notin> fst ` set (List.map_filter (\<lambda>(k, v). map_option (Pair k) (f v)) xs)" by blast
  then have none: "map_of (List.map_filter (\<lambda>(k, v). map_option (Pair k) (f v)) xs) k = None"
    by (simp add: map_of_eq_None_iff)
  from Cons a none show ?case
    by (auto simp: List.map_filter_simps split: option.splits)
qed

lemma getDefaults_map_of:
  assumes "distinct (map fst props)"
  shows "map_of (getDefaults (Some (JObj props))) key =
           (case map_of props key of None \<Rightarrow> None | Some v \<Rightarrow> own_prop v ''default'')"
  using assms
  by (simp add: getDefaults_def fold_update_map_of optional_default_def
      map_of_rev_distinct [OF map_filter_distinct] map_filter_map_of)

lemma resolve_ref_no_ref:
  "own_prop v ''$ref'' = None \<Longrightarrow> resolve_ref definitions v = ([], Inr v)"
  by (cases v) (simp_all add: own_prop_def)

lemma inline_refs_ok:
  assumes "inline_refs definitions es = (es', w, None)"
  shows "map fst es' = map fst es
     \<and> (\<forall>key v. (key, v) \<in> set es \<and> own_prop v ''$ref'' = None \<longrightarrow> (key, v) \<in> set es')"
  using assms
proof (induction es arbitrary: es' w)
  case Nil
  then show ?case by simp
next
  case (Cons a es)
  obtain k v where a: "a = (k, v)" by (cases a)
  from Cons.prems a obtain w1 v' rest' w' where
    r: "resolve_ref definitions v = (w1, Inr v')" and
    tail: "inline_refs definitions es = (rest', w', None)" and es': "es' = (k, v') # rest'"
    by (auto split: prod.splits sum.splits)
  from Cons.IH [OF tail] r es' a show ?case
    by (auto simp: resolve_ref_no_ref)
qed

lemma inline_refs_keys:
  "inline_refs definitions es = (es', w, r) \<Longrightarrow> map fst es' = map fst es"
proof (induction es arbitrary: es' w r)
  case Nil
  then show ?case by simp
next
  case (Cons a es)
  obtain k v where a: "a = (k, v)" by (cases a)
  from Cons.prems show ?case
    unfolding a
    by (auto split: prod.splits sum.splits dest: Cons.IH)
qed

lemma assign_serverSettings_get:
  assumes "assign_path base [''properties''] ''serverSettings'' fragment = Inr entry"
  shows "get_path (Some entry) [''properties'', ''serverSettings''] = Inr (Some fragment)"
proof -
  from assms obtain child child' where
    c: "get_prop (Some base) ''properties'' = Inr (Some child)"
    and s: "set_prop (Some child) ''serverSettings'' fragment = Inr child'"
    and e: "entry = put_child base ''properties'' child'"
    by (auto split: sum.splits option.splits)
  from get_prop_named [OF c] obtain b where b: "base = JObj b" by auto
  from s obtain ckv where "child = JObj ckv" "child' = JObj (AList.update ''serverSettings'' fragment ckv)"
    by (cases child) auto
  with e b show ?thesis
    by (simp add: own_prop_def update_conv')
qed


lemma example_specs_run:
  "\<exists>sp' w knownServersConfig defaults.
     populate_specs example_env {''pyls''} (Some example_base) [(''priority'', JNum 50)]
       example_specs [] [] = (sp', w, Inr (knownServersConfig, defaults))"
  by (simp add: example_specs_def pyls_spec_def example_base_def example_env_def
      populate_spec_def populate_config_schema_def getDefaults_def own_prop_def Let_def
      List.map_filter_def optional_default_def)


text \<open>
  C7. For specifications with distinct keys (they are the entries of a map) on which the
  loop completes: the keys of \<^verbatim>\<open>knownServersConfig\<close> and the keys of \<^verbatim>\<open>defaults\<close> are both
  exactly the keys of the specifications that are not skipped, each of them once. A
  specification with an empty key, without a fragment, or whose fragment has no
  \<open>properties\<close> is skipped; a skipped one has its warning in the log and no entry in
  either map, every other one has an entry in both. With no specifications both maps
  are empty.
\<close>

theorem skipped_or_complete:
  assumes "distinct (map fst sp)"
    and "populate_specs env sess base shared sp [] [] = (sp', w, Inr (knownServersConfig, defaults))"
  shows "fst ` set knownServersConfig = {k. \<exists>spec. (k, spec) \<in> set sp \<and> \<not> skipped k spec}
     \<and> fst ` set defaults = {k. \<exists>spec. (k, spec) \<in> set sp \<and> \<not> skipped k spec}
     \<and> distinct (map fst knownServersConfig) \<and> distinct (map fst defaults)
     \<and> (\<forall>(k, spec) \<in> set sp.
           (k = [] \<or> config_schema spec = None
              \<or> (\<exists>cs. config_schema spec = Some cs \<and> own_prop cs ''properties'' = None)
            \<longrightarrow> skipped k spec)
         \<and> (skipped k spec \<longrightarrow>
               skip_warning k spec \<in> set w
             \<and> map_of knownServersConfig k = None \<and> map_of defaults k = None)
         \<and> (\<not> skipped k spec \<longrightarrow>
               map_of knownServersConfig k \<noteq> None \<and> map_of defaults k \<noteq> None))
     \<and> populate_specs env sess base shared [] [] [] = ([], [], Inr ([], []))"
proof -
  note keys = populate_specs_keys [OF assms(2)]
  have per: "(k = [] \<or> config_schema spec = None
              \<or> (\<exists>cs. config_schema spec = Some cs \<and> own_prop cs ''properties'' = None)
            \<longrightarrow> skipped k spec)
         \<and> (skipped k spec \<longrightarrow>
               skip_warning k spec \<in> set w
             \<and> map_of knownServersConfig k = None \<and> map_of defaults k = None)
         \<and> (\<not> skipped k spec \<longrightarrow>
               map_of knownServersConfig k \<noteq> None \<and> map_of defaults k \<noteq> None)"
    if mem: "(k, spec) \<in> set sp" for k spec
  proof -
    from populate_specs_entry [OF assms(2,1) mem] obtain w_k spec' r_k where
      e: "populate_spec env sess base shared k spec = (w_k, spec', Inr r_k)"
        "set w_k \<subseteq> set w"
        "(case r_k of
            None \<Rightarrow> map_of knownServersConfig k = map_of [] k \<and> map_of defaults k = map_of [] k
          | Some (entry, dflt) \<Rightarrow>
              map_of knownServersConfig k = Some entry \<and> map_of defaults k = Some dflt)"
      by blast
    have a: "k = [] \<or> config_schema spec = None
              \<or> (\<exists>cs. config_schema spec = Some cs \<and> own_prop cs ''properties'' = None)
            \<longrightarrow> skipped k spec"
      by (auto simp: skipped_def)
    have b: "skip_warning k spec \<in> set w
             \<and> map_of knownServersConfig k = None \<and> map_of defaults k = None"
      if "skipped k spec"
      using e populate_spec_skipped [OF that, of env sess base shared] by auto
    have c: "map_of knownServersConfig k \<noteq> None \<and> map_of defaults k \<noteq> None"
      if "\<not> skipped k spec"
      using e populate_spec_not_skipped [OF that e(1)]
      by (auto split: option.splits sum.splits)
    from a b c show ?thesis by blast
  qed
  from keys per show ?thesis by auto
qed

theorem skipped_or_complete_witness:
  "\<exists>sp' w knownServersConfig defaults.
     distinct (map fst example_specs)
   \<and> populate_specs example_env {''pyls''} (Some example_base) [(''priority'', JNum 50)]
       example_specs [] [] = (sp', w, Inr (knownServersConfig, defaults))
   \<and> fst ` set knownServersConfig = {k. \<exists>spec. (k, spec) \<in> set example_specs \<and> \<not> skipped k spec}
   \<and> fst ` set defaults = {k. \<exists>spec. (k, spec) \<in> set example_specs \<and> \<not> skipped k spec}
   \<and> skipped ''bash'' \<lparr>display_name = ''Bash LS'', config_schema = None\<rparr>
   \<and> skip_warning ''bash'' \<lparr>display_name = ''Bash LS'', config_schema = None\<rparr> \<in> set w
   \<and> map_of knownServersConfig ''bash'' = None \<and> map_of defaults ''bash'' = None
   \<and> \<not> skipped ''pyls'' pyls_spec
   \<and> map_of knownServersConfig ''pyls'' \<noteq> None \<and> map_of defaults ''pyls'' \<noteq> None"
proof -
  from example_specs_run obtain sp' w knownServersConfig defaults where
    h2: "populate_specs example_env {''pyls''} (Some example_base) [(''priority'', JNum 50)]
       example_specs [] [] = (sp', w, Inr (knownServersConfig, defaults))" by blast
  have h1: "distinct (map fst example_specs)"
    by (simp add: example_specs_def)
  have m1: "(''bash'', \<lparr>display_name = ''Bash LS'', config_schema = None\<rparr>) \<in> set example_specs"
    and m2: "(''pyls'', pyls_spec) \<in> set example_specs"
    by (simp_all add: example_specs_def)
  have s1: "skipped ''bash'' \<lparr>display_name = ''Bash LS'', config_schema = None\<rparr>"
    and s2: "\<not> skipped ''pyls'' pyls_spec"
    by (simp_all add: skipped_def pyls_spec_def own_prop_def)
  note t = skipped_or_complete [OF h1 h2]
  note k1 = t [THEN conjunct1]
  note k2 = t [THEN conjunct2, THEN conjunct1]
  note per = t [THEN conjunct2, THEN conjunct2, THEN conjunct2, THEN conjunct2, THEN conjunct1]
  from bspec [OF per m1] s1
  have b1: "skip_warning ''bash'' \<lparr>display_name = ''Bash LS'', config_schema = None\<rparr> \<in> set w"
    and b2: "map_of knownServersConfig ''bash'' = None"
    and b3: "map_of defaults ''bash'' = None"
    by simp_all
  from bspec [OF per m2] s2
  have c1: "map_of knownServersConfig ''pyls'' \<noteq> None"
    and c2: "map_of defaults ''pyls'' \<noteq> None"
    by simp_all
  show ?thesis
    by (intro exI [of _ sp'] exI [of _ w] exI [of _ knownServersConfig] exI [of _ defaults] conjI)
       (fact h1 h2 k1 k2 s1 b1 b2 b3 s2 c1 c2)+
qed


text \<open>
  C8. For a specification that is not skipped, with properties \<open>props\<close> (an object with
  distinct keys), when the loop completes: the fragment of the specification has
  properties \<open>props'\<close> after the loop (the references resolved; the same keys; a property
  without \<^verbatim>\<open>$ref\<close> is as before), and \<^verbatim>\<open>defaults[k]\<close> is the shared defaults with
  \<open>serverSettings\<close> set to the map \<open>getDefaults props'\<close>, which maps a key to the \<open>default\<close>
  member of the property of that key and has no other keys. In the scenario of the
  specification, \<open>pyls\<close> with \<open>maxLineLength\<close> of default 80, the entry is the shared
  defaults with \<^verbatim>\<open>{serverSettings: {maxLineLength: 80}}\<close>.
\<close>

theorem defaults_entry:
  assumes "distinct (map fst sp)"
    and "populate_specs env sess base shared sp [] [] = (sp', w, Inr (knownServersConfig, defaults))"
    and "(k, spec) \<in> set sp" and "\<not> skipped k spec"
    and "config_schema spec = Some configSchema"
    and "own_prop configSchema ''properties'' = Some (JObj props)"
    and "distinct (map fst props)"
  shows "\<exists>fragment props'.
       map_of sp' k = Some (spec\<lparr>config_schema := Some fragment\<rparr>)
     \<and> own_prop fragment ''properties'' = Some (JObj props')
     \<and> map_of defaults k =
         Some (JObj (AList.update ''serverSettings'' (JObj (getDefaults (Some (JObj props'))))
                       shared))
     \<and> (\<forall>key. map_of (getDefaults (Some (JObj props'))) key =
           (case map_of props' key of None \<Rightarrow> None | Some v \<Rightarrow> own_prop v ''default''))
     \<and> map fst props' = map fst props
     \<and> (\<forall>key v. map_of props key = Some v \<and> own_prop v ''$ref'' = None
           \<longrightarrow> map_of props' key = Some v)"
proof -
  from populate_specs_entry [OF assms(2,1,3)] obtain w_k spec' r_k where
    e: "populate_spec env sess base shared k spec = (w_k, spec', Inr r_k)"
      "map_of sp' k = Some spec'"
      "(case r_k of
          None \<Rightarrow> map_of knownServersConfig k = map_of [] k \<and> map_of defaults k = map_of [] k
        | Some (entry, dflt) \<Rightarrow>
            map_of knownServersConfig k = Some entry \<and> map_of defaults k = Some dflt)"
    by blast
  from populate_spec_not_skipped [OF assms(4) e(1)] assms(5) obtain kvs fragment entry where
    kvs: "configSchema = JObj kvs"
    and pcs: "populate_config_schema env (k \<in> sess) (display_name spec) kvs = (w_k, fragment, None)"
    and spec': "spec' = spec\<lparr>config_schema := Some fragment\<rparr>"
    and r: "r_k = Some (entry,
              JObj (AList.update ''serverSettings''
                      (JObj (getDefaults (own_prop fragment ''properties''))) shared))"
    by (auto split: option.splits sum.splits)
  from assms(6) kvs have p: "map_of kvs ''properties'' = Some (JObj props)"
    by (simp add: own_prop_def)
  from pcs p obtain props' where
    inl: "inline_refs (map_of kvs ''definitions'') props = (props', w_k, None)"
    and fr: "own_prop fragment ''properties'' = Some (JObj props')"
    unfolding populate_config_schema_unfold Let_def
    by (auto split: prod.splits simp: own_prop_def update_conv')
  note ok = inline_refs_ok [OF inl]
  from ok assms(7) have d': "distinct (map fst props')" by simp
  have same: "map_of props' key = Some v"
    if "map_of props key = Some v" "own_prop v ''$ref'' = None" for key v
  proof -
    from that(1) have "(key, v) \<in> set props" by (rule map_of_SomeD)
    with ok that(2) have "(key, v) \<in> set props'" by blast
    with d' show ?thesis by simp
  qed
  from e(2,3) spec' r fr ok getDefaults_map_of [OF d'] same show ?thesis
    by auto
qed

theorem defaults_entry_witness:
  "\<exists>sp' w knownServersConfig defaults.
     distinct (map fst example_specs)
   \<and> populate_specs example_env {''pyls''} (Some example_base) [(''priority'', JNum 50)]
       example_specs [] [] = (sp', w, Inr (knownServersConfig, defaults))
   \<and> (''pyls'', pyls_spec) \<in> set example_specs \<and> \<not> skipped ''pyls'' pyls_spec
   \<and> map_of defaults ''pyls'' =
       Some (JObj [(''priority'', JNum 50),
                   (''serverSettings'', JObj [(''maxLineLength'', JNum 80)])])"
proof -
  from example_specs_run obtain sp' w knownServersConfig defaults where
    h2: "populate_specs example_env {''pyls''} (Some example_base) [(''priority'', JNum 50)]
       example_specs [] [] = (sp', w, Inr (knownServersConfig, defaults))" by blast
  let ?field = "JObj [(''type'', JStr ''number''), (''default'', JNum 80)]"
  let ?fields = "[(''maxLineLength'', ?field)]"
  have h1: "distinct (map fst example_specs)"
    by (simp add: example_specs_def)
  have h3: "(''pyls'', pyls_spec) \<in> set example_specs"
    by (simp add: example_specs_def)
  have h4: "\<not> skipped ''pyls'' pyls_spec"
    by (simp add: skipped_def pyls_spec_def own_prop_def)
  have h5: "config_schema pyls_spec = Some (JObj [(''properties'', JObj ?fields)])"
    by (simp add: pyls_spec_def)
  have h6: "own_prop (JObj [(''properties'', JObj ?fields)]) ''properties'' = Some (JObj ?fields)"
    by (simp add: own_prop_def)
  have h7: "distinct (map fst ?fields)" by simp
  from defaults_entry [OF h1 h2 h3 h4 h5 h6 h7] obtain props' where
    d: "map_of defaults ''pyls'' =
         Some (JObj (AList.update ''serverSettings'' (JObj (getDefaults (Some (JObj props'))))
                       [(''priority'', JNum 50)]))"
    and k: "map fst props' = map fst ?fields"
    and v: "\<forall>key v. map_of ?fields key = Some v \<and> own_prop v ''$ref'' = None
           \<longrightarrow> map_of props' key = Some v"
    by blast
  from v have "map_of props' ''maxLineLength'' = Some ?field"
    by (simp add: own_prop_def)
  with k have "props' = ?fields"
    by (cases props') auto
  with d have "map_of defaults ''pyls'' =
       Some (JObj [(''priority'', JNum 50),
                   (''serverSettings'', JObj [(''maxLineLength'', JNum 80)])])"
    by (simp add: getDefaults_def List.map_filter_def optional_default_def own_prop_def)
  with h1 h2 h3 h4 show ?thesis by blast
qed


text \<open>
  C3, as the claim states it: composition leaves the fragment of every specification as
  it was. The code assigns to the fragment of the specification itself (line 142 takes
  the reference, no copy is made): after composing \<open>pyls\<close> its fragment has a description
  and a title that it did not have.
\<close>

theorem fragment_copy_counterexample:
  "fst (populate_specs example_env {} (Some example_base) [] [(''pyls'', pyls_spec)] [] []) =
     [(''pyls'', pyls_spec\<lparr>config_schema := Some (JObj
        [(''properties'', JObj
            [(''maxLineLength'', JObj [(''type'', JStr ''number''), (''default'', JNum 80)])]),
         (''description'', JStr not_detected_message),
         (''title'', JStr title_message)])\<rparr>)]
   \<and> fst (populate_specs example_env {} (Some example_base) [] [(''pyls'', pyls_spec)] [] [])
       \<noteq> [(''pyls'', pyls_spec)]"
  by (simp add: pyls_spec_def example_base_def example_env_def
      populate_spec_def populate_config_schema_def getDefaults_def own_prop_def Let_def
      List.map_filter_def optional_default_def)


lemma inline_refs_entry:
  assumes "inline_refs definitions es = (es', w, None)" and "distinct (map fst es)"
    and "map_of es key = Some v"
  shows "\<exists>w1 v'. resolve_ref definitions v = (w1, Inr v') \<and> map_of es' key = Some v'"
  using assms
proof (induction es arbitrary: es' w)
  case Nil
  then show ?case by simp
next
  case (Cons a es)
  obtain k v0 where a: "a = (k, v0)" by (cases a)
  from Cons.prems(1) a obtain w1 v0' rest' w' where
    r: "resolve_ref definitions v0 = (w1, Inr v0')" and
    tail: "inline_refs definitions es = (rest', w', None)" and es': "es' = (k, v0') # rest'"
    by (auto split: prod.splits sum.splits)
  show ?case
  proof (cases "key = k")
    case True
    with Cons.prems(3) a r es' show ?thesis by auto
  next
    case False
    with Cons.prems(2,3) a have "distinct (map fst es)" "map_of es key = Some v" by auto
    from Cons.IH [OF tail this] False es' show ?thesis by auto
  qed
qed

lemma resolve_ref_resolved:
  assumes "map_of pv ''$ref'' = Some (JStr (''#/definitions/'' @ name))"
    and "map_of ds name = Some (JObj dv)"
  shows "resolve_ref (Some (JObj ds)) (JObj pv) =
           ([], Inr (JObj (AList.delete ''$ref''
              (fold (\<lambda>(defKey, defValue) value. AList.update defKey defValue value) dv pv))))"
  using assms by (simp add: startsWith_def own_prop_def)

lemma resolved_fields:
  assumes "distinct (map fst dv)"
  shows "map_of (AList.delete ''$ref''
            (fold (\<lambda>(defKey, defValue) value. AList.update defKey defValue value) dv pv)) f =
         (if f = ''$ref'' then None
          else case map_of dv f of Some x \<Rightarrow> Some x | None \<Rightarrow> map_of pv f)"
  using assms
  by (simp add: delete_conv' fold_update_map_of map_of_rev_distinct map_add_def)

lemma populate_config_schema_others:
  assumes "populate_config_schema env b name kvs = (w, JObj cs, err)"
    and "f \<noteq> ''description''" "f \<noteq> ''title''" "f \<noteq> ''properties''"
  shows "map_of cs f = map_of kvs f"
  using assms unfolding populate_config_schema_unfold Let_def
  by (auto split: option.splits sum.splits prod.splits simp: update_conv')


lemma ref_specs_run:
  "\<exists>sp' w knownServersConfig defaults.
     populate_specs example_env {''r''} (Some example_base) [] ref_specs [] []
       = (sp', w, Inr (knownServersConfig, defaults))"
  by (simp add: ref_specs_def ref_spec_def example_base_def example_env_def
      populate_spec_def populate_config_schema_def getDefaults_def own_prop_def Let_def
      List.map_filter_def optional_default_def startsWith_def)

text \<open>
  C3, amended. Composition mutates in place the fragment of every specification that
  is not skipped: after the loop the specification holds the fragment with the
  description for its session state and the title assigned, its other members except
  \<open>properties\<close> as before, and this fragment is the \<open>serverSettings\<close> property of its
  entry in \<^verbatim>\<open>knownServersConfig\<close>. Its properties (an object with distinct keys) have
  the same keys as before; a property without \<^verbatim>\<open>$ref\<close> is as before; a property whose
  \<^verbatim>\<open>$ref\<close> is \<^verbatim>\<open>#/definitions/name\<close>, for a definition \<open>name\<close> of the fragment that is an
  object (with distinct keys), has no \<^verbatim>\<open>$ref\<close> any more, has every member of the
  definition, and keeps its own members that the definition does not have. A skipped
  specification is left as it was.
\<close>

theorem fragment_mutated_in_place:
  assumes "distinct (map fst sp)"
    and "populate_specs env sess base shared sp [] [] = (sp', w, Inr (knownServersConfig, defaults))"
    and "(k, spec) \<in> set sp"
  shows "(skipped k spec \<longrightarrow> map_of sp' k = Some spec)
     \<and> (\<not> skipped k spec \<longrightarrow>
          (\<exists>kvs fragment entry.
              config_schema spec = Some (JObj kvs)
            \<and> map_of sp' k = Some (spec\<lparr>config_schema := Some fragment\<rparr>)
            \<and> own_prop fragment ''description''
                = Some (JStr (description_text env (k \<in> sess) (display_name spec)))
            \<and> own_prop fragment ''title'' = Some (JStr (tr env title_message []))
            \<and> (\<forall>f. f \<notin> {''description'', ''title'', ''properties''} \<longrightarrow>
                  own_prop fragment f = map_of kvs f)
            \<and> map_of knownServersConfig k = Some entry
            \<and> get_path (Some entry) [''properties'', ''serverSettings''] = Inr (Some fragment)
            \<and> (\<forall>props. map_of kvs ''properties'' = Some (JObj props) \<and> distinct (map fst props) \<longrightarrow>
                 (\<exists>props'.
                     own_prop fragment ''properties'' = Some (JObj props')
                   \<and> map fst props' = map fst props
                   \<and> (\<forall>key v. map_of props key = Some v \<and> own_prop v ''$ref'' = None
                         \<longrightarrow> map_of props' key = Some v)
                   \<and> (\<forall>key pv name ds dv.
                           map_of props key = Some (JObj pv)
                         \<and> map_of pv ''$ref'' = Some (JStr (''#/definitions/'' @ name))
                         \<and> map_of kvs ''definitions'' = Some (JObj ds)
                         \<and> map_of ds name = Some (JObj dv) \<and> distinct (map fst dv)
                         \<longrightarrow> (\<exists>pv'.
                                 map_of props' key = Some (JObj pv')
                               \<and> map_of pv' ''$ref'' = None
                               \<and> (\<forall>f. f \<noteq> ''$ref'' \<longrightarrow>
                                     map_of pv' f =
                                       (case map_of dv f of Some x \<Rightarrow> Some x
                                        | None \<Rightarrow> map_of pv f))))))))"
proof (intro conjI impI)
  from populate_specs_entry [OF assms(2,1,3)] obtain w_k spec' r_k where
    e: "populate_spec env sess base shared k spec = (w_k, spec', Inr r_k)"
      "map_of sp' k = Some spec'"
      "(case r_k of
          None \<Rightarrow> map_of knownServersConfig k = map_of [] k \<and> map_of defaults k = map_of [] k
        | Some (entry, dflt) \<Rightarrow>
            map_of knownServersConfig k = Some entry \<and> map_of defaults k = Some dflt)"
    by blast
  {
    assume sk: "skipped k spec"
    show "map_of sp' k = Some spec"
      using e populate_spec_skipped [OF sk, of env sess base shared] by simp
  }
  {
    assume ns: "\<not> skipped k spec"
    from populate_spec_not_skipped [OF ns e(1)] obtain kvs fragment entry where
      kvs: "config_schema spec = Some (JObj kvs)"
      and pcs: "populate_config_schema env (k \<in> sess) (display_name spec) kvs = (w_k, fragment, None)"
      and spec': "spec' = spec\<lparr>config_schema := Some fragment\<rparr>"
      and asg: "assign_path (deepCopy base) [''properties''] ''serverSettings'' fragment = Inr entry"
      and r: "r_k = Some (entry,
                JObj (AList.update ''serverSettings''
                        (JObj (getDefaults (own_prop fragment ''properties''))) shared))"
      by (auto split: option.splits sum.splits)
    from populate_config_schema_shape [OF pcs] obtain cs where
      cs: "fragment = JObj cs"
      and d: "map_of cs ''description'' = Some (JStr (description_text env (k \<in> sess) (display_name spec)))"
      and t: "map_of cs ''title'' = Some (JStr (tr env title_message []))" by blast
    have others: "\<forall>f. f \<notin> {''description'', ''title'', ''properties''} \<longrightarrow>
                  own_prop fragment f = map_of kvs f"
      using populate_config_schema_others [OF pcs [unfolded cs]]
      by (simp add: cs own_prop_def)
    have refs: "\<forall>props. map_of kvs ''properties'' = Some (JObj props) \<and> distinct (map fst props) \<longrightarrow>
                 (\<exists>props'.
                     own_prop fragment ''properties'' = Some (JObj props')
                   \<and> map fst props' = map fst props
                   \<and> (\<forall>key v. map_of props key = Some v \<and> own_prop v ''$ref'' = None
                         \<longrightarrow> map_of props' key = Some v)
                   \<and> (\<forall>key pv name ds dv.
                           map_of props key = Some (JObj pv)
                         \<and> map_of pv ''$ref'' = Some (JStr (''#/definitions/'' @ name))
                         \<and> map_of kvs ''definitions'' = Some (JObj ds)
                         \<and> map_of ds name = Some (JObj dv) \<and> distinct (map fst dv)
                         \<longrightarrow> (\<exists>pv'.
                                 map_of props' key = Some (JObj pv')
                               \<and> map_of pv' ''$ref'' = None
                               \<and> (\<forall>f. f \<noteq> ''$ref'' \<longrightarrow>
                                     map_of pv' f =
                                       (case map_of dv f of Some x \<Rightarrow> Some x
                                        | None \<Rightarrow> map_of pv f)))))"
    proof (intro allI impI, elim conjE)
      fix props
      assume p: "map_of kvs ''properties'' = Some (JObj props)" and dp: "distinct (map fst props)"
      from pcs p obtain props' where
        inl: "inline_refs (map_of kvs ''definitions'') props = (props', w_k, None)"
        and fr: "own_prop fragment ''properties'' = Some (JObj props')"
        unfolding populate_config_schema_unfold Let_def
        by (auto split: prod.splits simp: own_prop_def update_conv')
      note ok = inline_refs_ok [OF inl]
      note keys = ok [THEN conjunct1]
      from keys dp have d': "distinct (map fst props')" by simp
      have same: "\<forall>key v. map_of props key = Some v \<and> own_prop v ''$ref'' = None
                         \<longrightarrow> map_of props' key = Some v"
      proof (intro allI impI, elim conjE)
        fix key v
        assume m: "map_of props key = Some v" and nr: "own_prop v ''$ref'' = None"
        from m have "(key, v) \<in> set props" by (rule map_of_SomeD)
        with ok nr have "(key, v) \<in> set props'" by blast
        with d' show "map_of props' key = Some v" by simp
      qed
      have resolved: "\<forall>key pv name ds dv.
                           map_of props key = Some (JObj pv)
                         \<and> map_of pv ''$ref'' = Some (JStr (''#/definitions/'' @ name))
                         \<and> map_of kvs ''definitions'' = Some (JObj ds)
                         \<and> map_of ds name = Some (JObj dv) \<and> distinct (map fst dv)
                         \<longrightarrow> (\<exists>pv'.
                                 map_of props' key = Some (JObj pv')
                               \<and> map_of pv' ''$ref'' = None
                               \<and> (\<forall>f. f \<noteq> ''$ref'' \<longrightarrow>
                                     map_of pv' f =
                                       (case map_of dv f of Some x \<Rightarrow> Some x
                                        | None \<Rightarrow> map_of pv f)))"
      proof (intro allI impI, elim conjE)
        fix key pv name ds dv
        assume m: "map_of props key = Some (JObj pv)"
          and rf: "map_of pv ''$ref'' = Some (JStr (''#/definitions/'' @ name))"
          and ds: "map_of kvs ''definitions'' = Some (JObj ds)"
          and dv: "map_of ds name = Some (JObj dv)" and ddv: "distinct (map fst dv)"
        let ?pv' = "AList.delete ''$ref''
              (fold (\<lambda>(defKey, defValue) value. AList.update defKey defValue value) dv pv)"
        from inline_refs_entry [OF inl dp m] obtain w1 v' where
          rr: "resolve_ref (map_of kvs ''definitions'') (JObj pv) = (w1, Inr v')"
          and v': "map_of props' key = Some v'" by blast
        from rr resolve_ref_resolved [OF rf dv] ds have "v' = JObj ?pv'"
          by simp
        with v' have 1: "map_of props' key = Some (JObj ?pv')" by simp
        have 2: "map_of ?pv' ''$ref'' = None"
          by (simp add: resolved_fields [OF ddv])
        have 3: "\<forall>f. f \<noteq> ''$ref'' \<longrightarrow>
                   map_of ?pv' f = (case map_of dv f of Some x \<Rightarrow> Some x | None \<Rightarrow> map_of pv f)"
          by (simp add: resolved_fields [OF ddv])
        show "\<exists>pv'.
                 map_of props' key = Some (JObj pv')
               \<and> map_of pv' ''$ref'' = None
               \<and> (\<forall>f. f \<noteq> ''$ref'' \<longrightarrow>
                     map_of pv' f =
                       (case map_of dv f of Some x \<Rightarrow> Some x
                        | None \<Rightarrow> map_of pv f))"
          by (intro exI [of _ ?pv'] conjI) (fact 1 2 3)+
      qed
      show "\<exists>props'.
                     own_prop fragment ''properties'' = Some (JObj props')
                   \<and> map fst props' = map fst props
                   \<and> (\<forall>key v. map_of props key = Some v \<and> own_prop v ''$ref'' = None
                         \<longrightarrow> map_of props' key = Some v)
                   \<and> (\<forall>key pv name ds dv.
                           map_of props key = Some (JObj pv)
                         \<and> map_of pv ''$ref'' = Some (JStr (''#/definitions/'' @ name))
                         \<and> map_of kvs ''definitions'' = Some (JObj ds)
                         \<and> map_of ds name = Some (JObj dv) \<and> distinct (map fst dv)
                         \<longrightarrow> (\<exists>pv'.
                                 map_of props' key = Some (JObj pv')
                               \<and> map_of pv' ''$ref'' = None
                               \<and> (\<forall>f. f \<noteq> ''$ref'' \<longrightarrow>
                                     map_of pv' f =
                                       (case map_of dv f of Some x \<Rightarrow> Some x
                                        | None \<Rightarrow> map_of pv f))))"
        by (intro exI [of _ props'] conjI) (fact fr keys same resolved)+
    qed
    have g: "get_path (Some entry) [''properties'', ''serverSettings''] = Inr (Some fragment)"
      by (rule assign_serverSettings_get [OF asg])
    have k1: "map_of sp' k = Some (spec\<lparr>config_schema := Some fragment\<rparr>)"
      using e(2) spec' by simp
    have k2: "map_of knownServersConfig k = Some entry"
      using e(3) r by simp
    have k3: "own_prop fragment ''description''
                = Some (JStr (description_text env (k \<in> sess) (display_name spec)))"
      using d cs by (simp add: own_prop_def)
    have k4: "own_prop fragment ''title'' = Some (JStr (tr env title_message []))"
      using t cs by (simp add: own_prop_def)
    show "\<exists>kvs fragment entry.
              config_schema spec = Some (JObj kvs)
            \<and> map_of sp' k = Some (spec\<lparr>config_schema := Some fragment\<rparr>)
            \<and> own_prop fragment ''description''
                = Some (JStr (description_text env (k \<in> sess) (display_name spec)))
            \<and> own_prop fragment ''title'' = Some (JStr (tr env title_message []))
            \<and> (\<forall>f. f \<notin> {''description'', ''title'', ''properties''} \<longrightarrow>
                  own_prop fragment f = map_of kvs f)
            \<and> map_of knownServersConfig k = Some entry
            \<and> get_path (Some entry) [''properties'', ''serverSettings''] = Inr (Some fragment)
            \<and> (\<forall>props. map_of kvs ''properties'' = Some (JObj props) \<and> distinct (map fst props) \<longrightarrow>
                 (\<exists>props'.
                     own_prop fragment ''properties'' = Some (JObj props')
                   \<and> map fst props' = map fst props
                   \<and> (\<forall>key v. map_of props key = Some v \<and> own_prop v ''$ref'' = None
                         \<longrightarrow> map_of props' key = Some v)
                   \<and> (\<forall>key pv name ds dv.
                           map_of props key = Some (JObj pv)
                         \<and> map_of pv ''$ref'' = Some (JStr (''#/definitions/'' @ name))
                         \<and> map_of kvs ''definitions'' = Some (JObj ds)
                         \<and> map_of ds name = Some (JObj dv) \<and> distinct (map fst dv)
                         \<longrightarrow> (\<exists>pv'.
                                 map_of props' key = Some (JObj pv')
                               \<and> map_of pv' ''$ref'' = None
                               \<and> (\<forall>f. f \<noteq> ''$ref'' \<longrightarrow>
                                     map_of pv' f =
                                       (case map_of dv f of Some x \<Rightarrow> Some x
                                        | None \<Rightarrow> map_of pv f))))))"
      by (intro exI [of _ kvs] exI [of _ fragment] exI [of _ entry] conjI)
         (fact kvs k1 k3 k4 others k2 g refs)+
  }
qed


theorem fragment_mutated_in_place_witness:
  "\<exists>sp' w knownServersConfig defaults.
     distinct (map fst ref_specs)
   \<and> populate_specs example_env {''r''} (Some example_base) [] ref_specs [] []
       = (sp', w, Inr (knownServersConfig, defaults))
   \<and> (''texlab'', \<lparr>display_name = ''TexLab'', config_schema = Some (JObj [(''title'', JStr ''t'')])\<rparr>)
       \<in> set ref_specs
   \<and> skipped ''texlab'' \<lparr>display_name = ''TexLab'', config_schema = Some (JObj [(''title'', JStr ''t'')])\<rparr>
   \<and> map_of sp' ''texlab''
       = Some \<lparr>display_name = ''TexLab'', config_schema = Some (JObj [(''title'', JStr ''t'')])\<rparr>
   \<and> (''r'', ref_spec) \<in> set ref_specs \<and> \<not> skipped ''r'' ref_spec
   \<and> (\<exists>fragment entry props' pv'.
         map_of sp' ''r'' = Some (ref_spec\<lparr>config_schema := Some fragment\<rparr>)
       \<and> own_prop fragment ''description''
           = Some (JStr (description_text example_env True ''R''))
       \<and> own_prop fragment ''title'' = Some (JStr (tr example_env title_message []))
       \<and> map_of knownServersConfig ''r'' = Some entry
       \<and> get_path (Some entry) [''properties'', ''serverSettings''] = Inr (Some fragment)
       \<and> own_prop fragment ''properties'' = Some (JObj props')
       \<and> map fst props' = [''p'']
       \<and> map_of props' ''p'' = Some (JObj pv')
       \<and> map_of pv' ''$ref'' = None
       \<and> map_of pv' ''type'' = Some (JStr ''number'')
       \<and> map_of pv' ''default'' = Some (JNum 3))"
proof -
  let ?texlab = "\<lparr>display_name = ''TexLab'', config_schema = Some (JObj [(''title'', JStr ''t'')])\<rparr>"
  let ?pv = "[(''$ref'', JStr ''#/definitions/d'')]"
  let ?fields = "[(''p'', JObj ?pv)]"
  let ?dv = "[(''type'', JStr ''number''), (''default'', JNum 3)]"
  let ?ds = "[(''d'', JObj ?dv)]"
  let ?kvs = "[(''properties'', JObj ?fields), (''definitions'', JObj ?ds)]"
  from ref_specs_run obtain sp' w knownServersConfig defaults where
    h2: "populate_specs example_env {''r''} (Some example_base) [] ref_specs [] []
       = (sp', w, Inr (knownServersConfig, defaults))" by blast
  have h1: "distinct (map fst ref_specs)"
    by (simp add: ref_specs_def)
  have m1: "(''texlab'', ?texlab) \<in> set ref_specs" and m2: "(''r'', ref_spec) \<in> set ref_specs"
    by (simp_all add: ref_specs_def)
  have s1: "skipped ''texlab'' ?texlab" and s2: "\<not> skipped ''r'' ref_spec"
    by (simp_all add: skipped_def ref_spec_def own_prop_def)
  from fragment_mutated_in_place [OF h1 h2 m1, THEN conjunct1] s1
  have a: "map_of sp' ''texlab'' = Some ?texlab" by simp
  from fragment_mutated_in_place [OF h1 h2 m2, THEN conjunct2] s2
  obtain kvs fragment entry where
    kvs: "config_schema ref_spec = Some (JObj kvs)"
    and b1: "map_of sp' ''r'' = Some (ref_spec\<lparr>config_schema := Some fragment\<rparr>)"
    and b2: "own_prop fragment ''description''
           = Some (JStr (description_text example_env (''r'' \<in> {''r''}) (display_name ref_spec)))"
    and b3: "own_prop fragment ''title'' = Some (JStr (tr example_env title_message []))"
    and b4: "map_of knownServersConfig ''r'' = Some entry"
    and b5: "get_path (Some entry) [''properties'', ''serverSettings''] = Inr (Some fragment)"
    and refs: "\<forall>props. map_of kvs ''properties'' = Some (JObj props) \<and> distinct (map fst props) \<longrightarrow>
                 (\<exists>props'.
                     own_prop fragment ''properties'' = Some (JObj props')
                   \<and> map fst props' = map fst props
                   \<and> (\<forall>key v. map_of props key = Some v \<and> own_prop v ''$ref'' = None
                         \<longrightarrow> map_of props' key = Some v)
                   \<and> (\<forall>key pv name ds dv.
                           map_of props key = Some (JObj pv)
                         \<and> map_of pv ''$ref'' = Some (JStr (''#/definitions/'' @ name))
                         \<and> map_of kvs ''definitions'' = Some (JObj ds)
                         \<and> map_of ds name = Some (JObj dv) \<and> distinct (map fst dv)
                         \<longrightarrow> (\<exists>pv'.
                                 map_of props' key = Some (JObj pv')
                               \<and> map_of pv' ''$ref'' = None
                               \<and> (\<forall>f. f \<noteq> ''$ref'' \<longrightarrow>
                                     map_of pv' f =
                                       (case map_of dv f of Some x \<Rightarrow> Some x
                                        | None \<Rightarrow> map_of pv f)))))"
    by (elim impE exE conjE) (rule TrueI | assumption)+
  from kvs have kv: "kvs = ?kvs" by (simp add: ref_spec_def)
  have P: "map_of kvs ''properties'' = Some (JObj ?fields) \<and> distinct (map fst ?fields)"
    by (simp add: kv)
  from refs [THEN spec, of ?fields, THEN mp, OF P] obtain props' where
    cc: "own_prop fragment ''properties'' = Some (JObj props')
       \<and> map fst props' = map fst ?fields
       \<and> (\<forall>key v. map_of ?fields key = Some v \<and> own_prop v ''$ref'' = None
             \<longrightarrow> map_of props' key = Some v)
       \<and> (\<forall>key pv name ds dv.
               map_of ?fields key = Some (JObj pv)
             \<and> map_of pv ''$ref'' = Some (JStr (''#/definitions/'' @ name))
             \<and> map_of kvs ''definitions'' = Some (JObj ds)
             \<and> map_of ds name = Some (JObj dv) \<and> distinct (map fst dv)
             \<longrightarrow> (\<exists>pv'.
                     map_of props' key = Some (JObj pv')
                   \<and> map_of pv' ''$ref'' = None
                   \<and> (\<forall>f. f \<noteq> ''$ref'' \<longrightarrow>
                         map_of pv' f =
                           (case map_of dv f of Some x \<Rightarrow> Some x
                            | None \<Rightarrow> map_of pv f))))" ..
  note c1 = cc [THEN conjunct1]
  note c2 = cc [THEN conjunct2, THEN conjunct1]
  note res = cc [THEN conjunct2, THEN conjunct2, THEN conjunct2]
  have Q: "map_of ?fields ''p'' = Some (JObj ?pv)
      \<and> map_of ?pv ''$ref'' = Some (JStr (''#/definitions/'' @ ''d''))
      \<and> map_of kvs ''definitions'' = Some (JObj ?ds)
      \<and> map_of ?ds ''d'' = Some (JObj ?dv) \<and> distinct (map fst ?dv)"
    by (simp add: kv)
  from res [THEN spec, of "''p''", THEN spec, of ?pv, THEN spec, of "''d''", THEN spec, of ?ds,
      THEN spec, of ?dv, THEN mp, OF Q]
  obtain pv' where
    dd: "map_of props' ''p'' = Some (JObj pv')
       \<and> map_of pv' ''$ref'' = None
       \<and> (\<forall>f. f \<noteq> ''$ref'' \<longrightarrow>
             map_of pv' f = (case map_of ?dv f of Some x \<Rightarrow> Some x | None \<Rightarrow> map_of ?pv f))" ..
  note d1 = dd [THEN conjunct1]
  note d2 = dd [THEN conjunct2, THEN conjunct1]
  note d3 = dd [THEN conjunct2, THEN conjunct2]
  from d3 [THEN spec, of "''type''"] have d4: "map_of pv' ''type'' = Some (JStr ''number'')"
    by simp
  from d3 [THEN spec, of "''default''"] have d5: "map_of pv' ''default'' = Some (JNum 3)"
    by simp
  from b2 have b2': "own_prop fragment ''description''
           = Some (JStr (description_text example_env True ''R''))"
    by (simp add: ref_spec_def)
  from c2 have c2': "map fst props' = [''p'']" by simp
  show ?thesis
    by (intro exI [of _ sp'] exI [of _ w] exI [of _ knownServersConfig] exI [of _ defaults]
        exI [of _ fragment] exI [of _ entry] exI [of _ props'] exI [of _ pv'] conjI)
       (fact h1 h2 m1 s1 a m2 s2 b1 b2' b3 b4 b5 c1 c2' d1 d2 d4 d5)+
qed

section \<open>Sessions and the description text\<close>


























end
